theory Spec2Isabelle
  imports Complex_Main "HOL-Library.Sublist"
begin

chapter \<open>The diagram converter: parsers, layout and markup\<close>

text \<open>
  A shallow embedding of \<^verbatim>\<open>src/mcp-servers/diagram-converter/index.js\<close>.
  JavaScript strings are sequences of code units; the embedding uses \<^typ>\<open>string\<close>,
  so it covers the texts whose code units lie in the range 0..255. Within that range the
  white space of \<^verbatim>\<open>trim\<close> and of the regular expression class \<^verbatim>\<open>\s\<close> is
  TAB, LF, VT, FF, CR, SPACE and NBSP, and the word characters of \<^verbatim>\<open>\w\<close> are the
  ASCII letters, the digits and the underscore.
\<close>

section \<open>String primitives\<close>

definition is_ws :: "char \<Rightarrow> bool" where
  "is_ws c = (of_char c \<in> {9, 10, 11, 12, 13, 32, 160 :: nat})"

text \<open>\<^verbatim>\<open>String.prototype.trim\<close>.\<close>

definition trim :: "string \<Rightarrow> string" where
  "trim s = rev (dropWhile is_ws (rev (dropWhile is_ws s)))"

text \<open>\<^verbatim>\<open>s.split('\n')\<close>: never empty, the empty text gives one empty line.\<close>

fun split_nl :: "string \<Rightarrow> string list" where
  "split_nl [] = [[]]"
| "split_nl (c # cs) =
     (if c = CHR 0x0A then [] # split_nl cs
      else (case split_nl cs of [] \<Rightarrow> [[c]] | l # ls \<Rightarrow> (c # l) # ls))"

text \<open>\<^verbatim>\<open>toLowerCase\<close> on one code unit below 256: the ASCII capitals and the
  Latin-1 capitals (0xC0..0xDE without the multiplication sign) move up by 32.\<close>

definition toLowerChar :: "char \<Rightarrow> char" where
  "toLowerChar c =
     (let n = (of_char c :: nat) in
      if (65 \<le> n \<and> n \<le> 90) \<or> (192 \<le> n \<and> n \<le> 222 \<and> n \<noteq> 215)
      then char_of (n + 32) else c)"

definition toLowerCase :: "string \<Rightarrow> string" where
  "toLowerCase s = map toLowerChar s"

text \<open>\<^verbatim>\<open>s.includes(sub)\<close>.\<close>

fun includes_str :: "string \<Rightarrow> string \<Rightarrow> bool" where
  "includes_str sub [] = (sub = [])"
| "includes_str sub (c # cs) = (prefix sub (c # cs) \<or> includes_str sub cs)"

text \<open>\<^verbatim>\<open>s.replace(/c/g, rep)\<close> for a pattern that is one literal character.\<close>

definition replaceAll_char :: "char \<Rightarrow> string \<Rightarrow> string \<Rightarrow> string" where
  "replaceAll_char c rep s = concat (map (\<lambda>x. if x = c then rep else [x]) s)"

section \<open>Escaping of label text\<close>

text \<open>
  \<^verbatim>\<open>escapeXML\<close> is five global replacements in sequence, the ampersand first.
\<close>

definition escapeXML :: "string \<Rightarrow> string" where
  "escapeXML str =
     replaceAll_char (CHR 0x27) ''&apos;''
       (replaceAll_char (CHR 0x22) ''&quot;''
         (replaceAll_char CHR ''>'' ''&gt;''
           (replaceAll_char CHR ''<'' ''&lt;''
             (replaceAll_char CHR ''&'' ''&amp;'' str))))"

text \<open>
  The specification's reading of the same function: every metacharacter is replaced by
  its entity, every other character is kept.
\<close>

definition escape_char :: "char \<Rightarrow> string" where
  "escape_char c =
     (if c = CHR ''&'' then ''&amp;''
      else if c = CHR ''<'' then ''&lt;''
      else if c = CHR ''>'' then ''&gt;''
      else if c = CHR 0x22 then ''&quot;''
      else if c = CHR 0x27 then ''&apos;''
      else [c])"

text \<open>
  The decoder a reader of the markup applies: one pass from the left, each of the five
  entities replaced by its character. It is the specification's side of the round trip;
  the repository has no decoder.
\<close>

fun decodeEntities :: "string \<Rightarrow> string" where
  "decodeEntities [] = []"
| "decodeEntities (c # cs) =
     (if c = CHR ''&'' \<and> prefix ''amp;'' cs then CHR ''&'' # decodeEntities (drop 4 cs)
      else if c = CHR ''&'' \<and> prefix ''lt;'' cs then CHR ''<'' # decodeEntities (drop 3 cs)
      else if c = CHR ''&'' \<and> prefix ''gt;'' cs then CHR ''>'' # decodeEntities (drop 3 cs)
      else if c = CHR ''&'' \<and> prefix ''quot;'' cs then CHR 0x22 # decodeEntities (drop 5 cs)
      else if c = CHR ''&'' \<and> prefix ''apos;'' cs then CHR 0x27 # decodeEntities (drop 5 cs)
      else c # decodeEntities cs)"

section \<open>Type detection\<close>

text \<open>\<^verbatim>\<open>detectDiagramType\<close>: the first line of the trimmed text, in lower case, is
  searched for the keywords in a fixed order.\<close>

definition detectDiagramType :: "string \<Rightarrow> string" where
  "detectDiagramType mermaidCode =
     (let firstLine = toLowerCase (hd (split_nl (trim mermaidCode))) in
      if includes_str ''gitgraph'' firstLine then ''gitgraph''
      else if includes_str ''erdiagram'' firstLine then ''erDiagram''
      else if includes_str ''sequencediagram'' firstLine then ''sequence''
      else if includes_str ''classdiagram'' firstLine then ''class''
      else if includes_str ''mindmap'' firstLine then ''mindmap''
      else if includes_str ''flowchart'' firstLine \<or> includes_str ''graph'' firstLine
      then ''flowchart''
      else ''unknown'')"

text \<open>The canonical keyword of each dialect and the name the detector gives it, in the
  order of the tests (both keywords of flow graphs are listed).\<close>

definition dialect_keywords :: "(string \<times> string) list" where
  "dialect_keywords =
     [(''gitGraph'', ''gitgraph''), (''erDiagram'', ''erDiagram''),
      (''sequenceDiagram'', ''sequence''), (''classDiagram'', ''class''),
      (''mindmap'', ''mindmap''), (''flowchart'', ''flowchart''), (''graph'', ''flowchart'')]"

text \<open>The line the detector looks at.\<close>

definition first_line :: "string \<Rightarrow> string" where
  "first_line mermaidCode = toLowerCase (hd (split_nl (trim mermaidCode)))"

section \<open>Regular expressions\<close>

text \<open>
  The parsers match each line against regular expressions. They are embedded as syntax
  trees with a backtracking matcher in continuation-passing style that follows the
  matching rules of the language: alternatives are tried from the left, \<^verbatim>\<open>*\<close>,
  \<^verbatim>\<open>+\<close> and \<^verbatim>\<open>?\<close> are greedy, \<^verbatim>\<open>*?\<close> is lazy, an iteration that
  consumes nothing is rejected, and a group records the text it matched last. Every
  pattern of the source starts with \<^verbatim>\<open>^\<close> and has no \<^verbatim>\<open>m\<close> flag, so a match is
  a match at position 0. The list of captures has the whole match at index 0 and group
  \<open>i\<close> at index \<open>i\<close>; \<open>None\<close> is \<^verbatim>\<open>undefined\<close>.
\<close>

type_synonym captures = "string option list"

type_synonym matcher = "(string \<Rightarrow> captures \<Rightarrow> captures option) \<Rightarrow> string \<Rightarrow> captures \<Rightarrow> captures option"

datatype regex =
  Sym "char \<Rightarrow> bool"
| Eps
| Cat regex regex
| Alt regex regex
| Star regex
| Lazy regex
| Opt regex
| Grp nat regex
| Eol

primrec star_loop :: "matcher \<Rightarrow> (string \<Rightarrow> captures \<Rightarrow> captures option) \<Rightarrow> nat \<Rightarrow> string \<Rightarrow> captures \<Rightarrow> captures option" where
  "star_loop f k 0 s c = k s c"
| "star_loop f k (Suc n) s c =
     (case f (\<lambda>s' c'. if length s' < length s then star_loop f k n s' c' else None) s c of
        Some r \<Rightarrow> Some r
      | None \<Rightarrow> k s c)"

primrec lazy_loop :: "matcher \<Rightarrow> (string \<Rightarrow> captures \<Rightarrow> captures option) \<Rightarrow> nat \<Rightarrow> string \<Rightarrow> captures \<Rightarrow> captures option" where
  "lazy_loop f k 0 s c = k s c"
| "lazy_loop f k (Suc n) s c =
     (case k s c of
        Some r \<Rightarrow> Some r
      | None \<Rightarrow> f (\<lambda>s' c'. if length s' < length s then lazy_loop f k n s' c' else None) s c)"

primrec rx :: "regex \<Rightarrow> matcher" where
  "rx (Sym p) k s c = (case s of [] \<Rightarrow> None | x # xs \<Rightarrow> if p x then k xs c else None)"
| "rx Eps k s c = k s c"
| "rx (Cat a b) k s c = rx a (rx b k) s c"
| "rx (Alt a b) k s c = (case rx a k s c of Some r \<Rightarrow> Some r | None \<Rightarrow> rx b k s c)"
| "rx (Star a) k s c = star_loop (rx a) k (length s) s c"
| "rx (Lazy a) k s c = lazy_loop (rx a) k (length s) s c"
| "rx (Opt a) k s c =
     (case rx a (\<lambda>s' c'. if length s' < length s then k s' c' else None) s c of
        Some r \<Rightarrow> Some r
      | None \<Rightarrow> k s c)"
| "rx (Grp i a) k s c =
     rx a (\<lambda>s' c'. k s' (c'[i := Some (take (length s - length s') s)])) s c"
| "rx Eol k s c = (if s = [] then k s c else None)"

definition js_match :: "regex \<Rightarrow> nat \<Rightarrow> string \<Rightarrow> captures option" where
  "js_match re n s =
     rx re (\<lambda>s' c. Some (c[0 := Some (take (length s - length s') s)])) s (replicate (Suc n) None)"

definition cats :: "regex list \<Rightarrow> regex" where
  "cats rs = foldr Cat rs Eps"

definition alts :: "regex list \<Rightarrow> regex" where
  "alts rs = (case rs of [] \<Rightarrow> Eps | _ \<Rightarrow> foldr Alt (butlast rs) (last rs))"

definition Plus :: "regex \<Rightarrow> regex" where
  "Plus a = Cat a (Star a)"

definition lit :: "char \<Rightarrow> regex" where
  "lit c = Sym (\<lambda>x. x = c)"

definition str :: "string \<Rightarrow> regex" where
  "str s = cats (map lit s)"

definition ascii_lower :: "char \<Rightarrow> char" where
  "ascii_lower c = (let n = (of_char c :: nat) in if 65 \<le> n \<and> n \<le> 90 then char_of (n + 32) else c)"

definition lit_i :: "char \<Rightarrow> regex" where
  "lit_i c = Sym (\<lambda>x. ascii_lower x = ascii_lower c)"

definition str_i :: "string \<Rightarrow> regex" where
  "str_i s = cats (map lit_i s)"

definition is_word :: "char \<Rightarrow> bool" where
  "is_word c = (let n = (of_char c :: nat) in
     (48 \<le> n \<and> n \<le> 57) \<or> (65 \<le> n \<and> n \<le> 90) \<or> n = 95 \<or> (97 \<le> n \<and> n \<le> 122))"

definition word :: regex where "word = Sym is_word"
definition space :: regex where "space = Sym is_ws"
definition dot :: regex where "dot = Sym (\<lambda>c. c \<noteq> CHR 0x0A \<and> c \<noteq> CHR 0x0D)"

text \<open>\<^verbatim>\<open>s.slice(a, b)\<close> with the negative indices counted from the end.\<close>

definition js_slice :: "string \<Rightarrow> int \<Rightarrow> int \<Rightarrow> string" where
  "js_slice s a b =
     (let n = int (length s);
          from = (if a < 0 then max (n + a) 0 else min a n);
          to = (if b < 0 then max (n + b) 0 else min b n)
      in take (nat (to - from)) (drop (nat from) s))"

text \<open>A captured group read as a condition: \<^verbatim>\<open>undefined\<close> and the empty string are false.\<close>

definition truthy :: "string option \<Rightarrow> bool" where
  "truthy g = (case g of None \<Rightarrow> False | Some s \<Rightarrow> s \<noteq> [])"

text \<open>A group that stands outside every optional part is defined in every match.\<close>

definition capture :: "captures \<Rightarrow> nat \<Rightarrow> string" where
  "capture c i = (case c ! i of None \<Rightarrow> [] | Some s \<Rightarrow> s)"

text \<open>A JavaScript \<^verbatim>\<open>Map\<close> keeps its keys in insertion order; setting an existing key
  keeps the key's place.\<close>

type_synonym 'v js_map = "(string \<times> 'v) list"

definition map_has :: "'v js_map \<Rightarrow> string \<Rightarrow> bool" where
  "map_has m k = (k \<in> set (map fst m))"

primrec map_set :: "'v js_map \<Rightarrow> string \<Rightarrow> 'v \<Rightarrow> 'v js_map" where
  "map_set [] k v = [(k, v)]"
| "map_set (p # ps) k v = (if fst p = k then (k, v) # ps else p # map_set ps k v)"

definition map_values :: "'v js_map \<Rightarrow> 'v list" where
  "map_values m = map snd m"

section \<open>Flow graphs: the parser\<close>

record fnode =
  fn_id :: string
  fn_label :: string
  fn_shape :: string

record fedge =
  fe_source :: string
  fe_target :: string
  fe_label :: "string option"

record flowchart =
  fc_nodes :: "fnode list"
  fc_edges :: "fedge list"
  fc_direction :: string

record flow_state =
  fs_nodes :: "fnode js_map"
  fs_edges :: "fedge list"
  fs_direction :: string

text \<open>\<^verbatim>\<open>/^(?:flowchart|graph)\s+(TD|TB|LR|RL|BT)/i\<close>\<close>

definition dir_re :: regex where
  "dir_re = cats [alts [str_i ''flowchart'', str_i ''graph''], Plus space,
     Grp 1 (alts [str_i ''TD'', str_i ''TB'', str_i ''LR'', str_i ''RL'', str_i ''BT''])]"

text \<open>\<^verbatim>\<open>(\[.*?\]|\(.*?\)|\{.*?\})\<close>, the three bracket pairs of an edge line.\<close>

definition shape3 :: "regex list" where
  "shape3 = [cats [lit CHR ''['', Lazy dot, lit CHR '']''],
             cats [lit CHR ''('', Lazy dot, lit CHR '')''],
             cats [lit CHR ''{'', Lazy dot, lit CHR ''}'']]"

text \<open>\<^verbatim>\<open>/^(\w+)(\[.*?\]|\(.*?\)|\{.*?\})?(\s*)(-->|---|-\.->|==>)(\|.*?\|)?(\s*)(\w+)(\[.*?\]|\(.*?\)|\{.*?\})?/\<close>\<close>

definition edge_re :: regex where
  "edge_re = cats [Grp 1 (Plus word), Opt (Grp 2 (alts shape3)), Grp 3 (Star space),
     Grp 4 (alts [str ''-->'', str ''---'', str ''-.->'', str ''==>'']),
     Opt (Grp 5 (cats [lit CHR ''|'', Lazy dot, lit CHR ''|''])),
     Grp 6 (Star space), Grp 7 (Plus word), Opt (Grp 8 (alts shape3))]"

text \<open>\<^verbatim>\<open>/^(\w+)(\[.*?\]|\(.*?\)|\{.*?\}|\(\[.*?\]\)|\(\(.*?\)\)|\[\[.*?\]\])/\<close>\<close>

definition node_re :: regex where
  "node_re = cats [Grp 1 (Plus word),
     Grp 2 (alts (shape3 @
       [cats [str ''(['', Lazy dot, str ''])''],
        cats [str ''(('', Lazy dot, str ''))''],
        cats [str ''[['', Lazy dot, str '']]'']]))]"

definition is_bracket :: "char \<Rightarrow> bool" where
  "is_bracket c = (c \<in> set ''[](){}'')"

text \<open>\<^verbatim>\<open>s.replace(/[\[\](){}]/g, '')\<close>\<close>

definition strip_brackets :: "string \<Rightarrow> string" where
  "strip_brackets s = filter (\<lambda>c. \<not> is_bracket c) s"

definition detectShape :: "string option \<Rightarrow> string" where
  "detectShape shapeStr =
     (case shapeStr of
        None \<Rightarrow> ''[]''
      | Some sh \<Rightarrow>
          if sh = [] then ''[]''
          else if prefix ''(['' sh \<and> suffix ''])'' sh then ''([])''
          else if prefix ''(('' sh \<and> suffix ''))'' sh then ''(())''
          else if prefix ''[['' sh \<and> suffix '']]'' sh then ''[[]]''
          else if prefix ''['' sh \<and> suffix '']'' sh then ''[]''
          else if prefix ''('' sh \<and> suffix '')'' sh then ''()''
          else if prefix ''{'' sh \<and> suffix ''}'' sh then ''{}''
          else ''[]'')"

text \<open>\<^verbatim>\<open>shapeStr.replace(/^\W+|\W+$/g, '').replace(/[\[\](){}]/g, '')\<close>: the leading and the
  trailing run of non-word characters go, then every bracket.\<close>

definition extractLabel :: "string option \<Rightarrow> string" where
  "extractLabel shapeStr =
     (if \<not> truthy shapeStr then []
      else strip_brackets
        (rev (dropWhile (\<lambda>c. \<not> is_word c) (rev (dropWhile (\<lambda>c. \<not> is_word c) (capture [shapeStr] 0))))))"

text \<open>\<^verbatim>\<open>toUpperCase\<close> on the text that \<^verbatim>\<open>(TD|TB|LR|RL|BT)\<close> matched without regard to
  case: ASCII letters only.\<close>

definition ascii_upper :: "char \<Rightarrow> char" where
  "ascii_upper c = (let n = (of_char c :: nat) in if 97 \<le> n \<and> n \<le> 122 then char_of (n - 32) else c)"

text \<open>The label of a node that an edge line introduces.\<close>

definition edge_node :: "string \<Rightarrow> string option \<Rightarrow> fnode" where
  "edge_node ident shape =
     \<lparr>fn_id = ident,
      fn_label = (if truthy shape then strip_brackets (js_slice (capture [shape] 0) 1 (-1)) else ident),
      fn_shape = detectShape shape\<rparr>"

text \<open>One turn of the loop over the lines.\<close>

definition flow_line :: "flow_state \<Rightarrow> string \<Rightarrow> flow_state" where
  "flow_line st line =
     (let trimmed = trim line in
      case js_match dir_re 1 trimmed of
        Some dirMatch \<Rightarrow> st\<lparr>fs_direction := map ascii_upper (capture dirMatch 1)\<rparr>
      | None \<Rightarrow>
     (case js_match edge_re 8 trimmed of
        Some edgeMatch \<Rightarrow>
          (let srcId = capture edgeMatch 1; srcShape = edgeMatch ! 2;
               label = edgeMatch ! 5;
               tgtId = capture edgeMatch 7; tgtShape = edgeMatch ! 8;
               nodes1 = (if \<not> map_has (fs_nodes st) srcId
                         then map_set (fs_nodes st) srcId (edge_node srcId srcShape)
                         else fs_nodes st);
               nodes2 = (if \<not> map_has nodes1 tgtId
                         then map_set nodes1 tgtId (edge_node tgtId tgtShape)
                         else nodes1)
           in st\<lparr>fs_nodes := nodes2,
                 fs_edges := fs_edges st @
                   [\<lparr>fe_source = srcId, fe_target = tgtId,
                     fe_label = (if truthy label then Some (js_slice (capture edgeMatch 5) 1 (-1)) else None)\<rparr>]\<rparr>)
      | None \<Rightarrow>
     (case js_match node_re 2 trimmed of
        Some nodeMatch \<Rightarrow>
          (let ident = capture nodeMatch 1; shape = nodeMatch ! 2
           in st\<lparr>fs_nodes := map_set (fs_nodes st) ident
                 \<lparr>fn_id = ident, fn_label = extractLabel shape, fn_shape = detectShape shape\<rparr>\<rparr>)
      | None \<Rightarrow> st)))"

definition parseFlowchart :: "string \<Rightarrow> flowchart" where
  "parseFlowchart mermaidCode =
     (let st = foldl flow_line \<lparr>fs_nodes = [], fs_edges = [], fs_direction = ''TD''\<rparr>
                 (split_nl (trim mermaidCode))
      in \<lparr>fc_nodes = map_values (fs_nodes st), fc_edges = fs_edges st,
          fc_direction = fs_direction st\<rparr>)"

section \<open>Errors and decimal numbers\<close>

text \<open>Reading a property of \<^verbatim>\<open>undefined\<close> throws a \<^verbatim>\<open>TypeError\<close>.\<close>

datatype js_error = TypeError

definition digit_char :: "nat \<Rightarrow> char" where
  "digit_char d = char_of (48 + d)"

text \<open>A counter in a template literal: its decimal digits.\<close>

fun show_nat :: "nat \<Rightarrow> string" where
  "show_nat n = (if n < 10 then [digit_char n] else show_nat (n div 10) @ [digit_char (n mod 10)])"

definition map_get :: "'v js_map \<Rightarrow> string \<Rightarrow> 'v option" where
  "map_get m k = map_of m k"

section \<open>Commit graphs: the parser\<close>

record commit =
  gc_id :: string
  gc_tag :: "string option"
  gc_type :: string
  gc_branch :: string
  gc_mergeFrom :: "string option"

record branch =
  gb_name :: string
  gb_commits :: "string list"
  gb_parentBranch :: "string option"

record gitgraph =
  gg_commits :: "commit list"
  gg_branches :: "branch list"

record git_state =
  gs_commits :: "commit list"
  gs_branches :: "branch js_map"
  gs_currentBranch :: string
  gs_commitId :: nat

definition notquote :: regex where
  "notquote = Sym (\<lambda>c. c \<noteq> CHR 0x22)"

text \<open>\<^verbatim>\<open>(?:\s+KEY\s*"([^"]+)")?\<close> with the key \<^verbatim>\<open>id:\<close> or \<^verbatim>\<open>tag:\<close>.\<close>

definition quoted_opt :: "string \<Rightarrow> nat \<Rightarrow> regex" where
  "quoted_opt key i =
     Opt (cats [Plus space, str_i key, Star space, lit (CHR 0x22), Grp i (Plus notquote), lit (CHR 0x22)])"

text \<open>\<^verbatim>\<open>/^commit(?:\s+id:\s*"([^"]+)")?(?:\s+tag:\s*"([^"]+)")?(?:\s+type:\s*(\w+))?/i\<close>\<close>

definition commit_re :: regex where
  "commit_re = cats [str_i ''commit'', quoted_opt ''id:'' 1, quoted_opt ''tag:'' 2,
     Opt (cats [Plus space, str_i ''type:'', Star space, Grp 3 (Plus word)])]"

text \<open>\<^verbatim>\<open>/^branch\s+(\w+)/i\<close>\<close>

definition branch_re :: regex where
  "branch_re = cats [str_i ''branch'', Plus space, Grp 1 (Plus word)]"

text \<open>\<^verbatim>\<open>/^checkout\s+(\w+)/i\<close>\<close>

definition checkout_re :: regex where
  "checkout_re = cats [str_i ''checkout'', Plus space, Grp 1 (Plus word)]"

text \<open>\<^verbatim>\<open>/^merge\s+(\w+)(?:\s+tag:\s*"([^"]+)")?/i\<close>\<close>

definition merge_re :: regex where
  "merge_re = cats [str_i ''merge'', Plus space, Grp 1 (Plus word), quoted_opt ''tag:'' 2]"

text \<open>\<^verbatim>\<open>x || null\<close> for a captured group.\<close>

definition or_null :: "string option \<Rightarrow> string option" where
  "or_null g = (if truthy g then g else None)"

text \<open>
  \<^verbatim>\<open>commits.push(commit); branches.get(currentBranch).commits.push(commit.id)\<close>:
  the second statement throws when the current branch is not a key of the map.
\<close>

definition push_commit :: "git_state \<Rightarrow> commit \<Rightarrow> js_error + git_state" where
  "push_commit st commit =
     (case map_get (gs_branches st) (gs_currentBranch st) of
        None \<Rightarrow> Inl TypeError
      | Some b \<Rightarrow>
          Inr (st\<lparr>gs_commits := gs_commits st @ [commit],
                  gs_branches := map_set (gs_branches st) (gs_currentBranch st)
                    (b\<lparr>gb_commits := gb_commits b @ [gc_id commit]\<rparr>)\<rparr>))"

definition skipped_line :: "string \<Rightarrow> bool" where
  "skipped_line trimmed = (trimmed = ''gitGraph'' \<or> prefix ''gitGraph'' trimmed \<or> trimmed = [])"

definition git_line :: "git_state \<Rightarrow> string \<Rightarrow> js_error + git_state" where
  "git_line st line =
     (let trimmed = trim line in
      if skipped_line trimmed then Inr st
      else
     (case js_match commit_re 3 trimmed of
        Some commitMatch \<Rightarrow>
          (if truthy (commitMatch ! 1)
           then push_commit st
                  \<lparr>gc_id = capture commitMatch 1, gc_tag = or_null (commitMatch ! 2),
                   gc_type = (if truthy (commitMatch ! 3) then capture commitMatch 3 else ''NORMAL''),
                   gc_branch = gs_currentBranch st, gc_mergeFrom = None\<rparr>
           else push_commit (st\<lparr>gs_commitId := gs_commitId st + 1\<rparr>)
                  \<lparr>gc_id = ''c'' @ show_nat (gs_commitId st), gc_tag = or_null (commitMatch ! 2),
                   gc_type = (if truthy (commitMatch ! 3) then capture commitMatch 3 else ''NORMAL''),
                   gc_branch = gs_currentBranch st, gc_mergeFrom = None\<rparr>)
      | None \<Rightarrow>
     (case js_match branch_re 1 trimmed of
        Some branchMatch \<Rightarrow>
          (let name = capture branchMatch 1
           in Inr (st\<lparr>gs_branches := map_set (gs_branches st) name
                       \<lparr>gb_name = name, gb_commits = [],
                        gb_parentBranch = Some (gs_currentBranch st)\<rparr>,
                     gs_currentBranch := name\<rparr>))
      | None \<Rightarrow>
     (case js_match checkout_re 1 trimmed of
        Some checkoutMatch \<Rightarrow> Inr (st\<lparr>gs_currentBranch := capture checkoutMatch 1\<rparr>)
      | None \<Rightarrow>
     (case js_match merge_re 2 trimmed of
        Some mergeMatch \<Rightarrow>
          push_commit (st\<lparr>gs_commitId := gs_commitId st + 1\<rparr>)
            \<lparr>gc_id = ''merge_'' @ show_nat (gs_commitId st), gc_tag = or_null (mergeMatch ! 2),
             gc_type = ''MERGE'', gc_branch = gs_currentBranch st,
             gc_mergeFrom = Some (capture mergeMatch 1)\<rparr>
      | None \<Rightarrow> Inr st)))))"

text \<open>The loop over the lines; an exception ends it.\<close>

fun git_lines :: "git_state \<Rightarrow> string list \<Rightarrow> js_error + git_state" where
  "git_lines st [] = Inr st"
| "git_lines st (l # ls) =
     (case git_line st l of Inl e \<Rightarrow> Inl e | Inr st' \<Rightarrow> git_lines st' ls)"

definition git_init :: git_state where
  "git_init =
     \<lparr>gs_commits = [],
      gs_branches = [(''main'', \<lparr>gb_name = ''main'', gb_commits = [], gb_parentBranch = None\<rparr>)],
      gs_currentBranch = ''main'', gs_commitId = 0\<rparr>"

definition parseGitGraph :: "string \<Rightarrow> js_error + gitgraph" where
  "parseGitGraph mermaidCode =
     (case git_lines git_init (split_nl (trim mermaidCode)) of
        Inl e \<Rightarrow> Inl e
      | Inr st \<Rightarrow> Inr \<lparr>gg_commits = gs_commits st, gg_branches = map_values (gs_branches st)\<rparr>)"

text \<open>
  The lines by what the loop does with them: a line that appends a commit (a commit or
  a merge directive), and a line that moves the current branch (a branch or a checkout
  directive). The tests stand in the order of the source.
\<close>

definition makes_commit :: "string \<Rightarrow> bool" where
  "makes_commit line =
     (let trimmed = trim line in
      \<not> skipped_line trimmed \<and>
      (js_match commit_re 3 trimmed \<noteq> None \<or>
       (js_match branch_re 1 trimmed = None \<and> js_match checkout_re 1 trimmed = None \<and>
        js_match merge_re 2 trimmed \<noteq> None)))"

definition switches_branch :: "string \<Rightarrow> bool" where
  "switches_branch line =
     (let trimmed = trim line in
      \<not> skipped_line trimmed \<and> js_match commit_re 3 trimmed = None \<and>
      (js_match branch_re 1 trimmed \<noteq> None \<or> js_match checkout_re 1 trimmed \<noteq> None))"

section \<open>Cells of the markup\<close>

text \<open>
  A generator builds the text of a list of \<^verbatim>\<open>mxCell\<close> elements and hands it to
  \<^verbatim>\<open>wrapInDrawioXML\<close>, which adds the envelope. The embedding keeps each element as a
  record of the attributes that identify and connect it: its id, whether it carries
  \<^verbatim>\<open>vertex="1"\<close> or \<^verbatim>\<open>edge="1"\<close>, its \<^verbatim>\<open>value\<close>, its parent and, for an edge,
  its source and target. The style and the geometry are not part of the record.
\<close>

datatype cell_kind = Vertex | Edge

record cell =
  c_id :: string
  c_kind :: cell_kind
  c_label :: "string option"
  c_parent :: string
  c_source :: "string option"
  c_target :: "string option"

definition vertex_cell :: "string \<Rightarrow> string option \<Rightarrow> string \<Rightarrow> cell" where
  "vertex_cell ident label parent =
     \<lparr>c_id = ident, c_kind = Vertex, c_label = label, c_parent = parent,
      c_source = None, c_target = None\<rparr>"

definition edge_cell :: "string \<Rightarrow> string option \<Rightarrow> string option \<Rightarrow> string option \<Rightarrow> cell" where
  "edge_cell ident label source target =
     \<lparr>c_id = ident, c_kind = Edge, c_label = label, c_parent = ''1'',
      c_source = source, c_target = target\<rparr>"

definition vertex_ids :: "cell list \<Rightarrow> string list" where
  "vertex_ids cells = map c_id (filter (\<lambda>c. c_kind c = Vertex) cells)"


section \<open>Commit graphs: the generator\<close>

text \<open>
  The source of the connector of a merge commit:
  \<^verbatim>\<open>branches.find(b => b.name === commit.mergeFrom)?.commits.slice(-1)[0] || prevCommit.id\<close>.
\<close>

definition connector_source :: "gitgraph \<Rightarrow> commit \<Rightarrow> commit \<Rightarrow> string" where
  "connector_source parsed commit prevCommit =
     (if gc_type commit = ''MERGE'' \<and> truthy (gc_mergeFrom commit)
      then (case find (\<lambda>b. Some (gb_name b) = gc_mergeFrom commit) (gg_branches parsed) of
              None \<Rightarrow> gc_id prevCommit
            | Some b \<Rightarrow>
                if gb_commits b \<noteq> [] \<and> last (gb_commits b) \<noteq> []
                then last (gb_commits b) else gc_id prevCommit)
      else gc_id prevCommit)"

text \<open>The loop over the commits, with the index of the commit and the counter of the
  connector ids.\<close>

fun commit_cells :: "gitgraph \<Rightarrow> nat \<Rightarrow> nat \<Rightarrow> commit list \<Rightarrow> cell list" where
  "commit_cells parsed index cellId [] = []"
| "commit_cells parsed index cellId (commit # rest) =
     (let connected = (index > 0 \<and>
            (gc_branch (gg_commits parsed ! (index - 1)) = gc_branch commit
             \<or> gc_type commit = ''MERGE''))
      in [vertex_cell (gc_id commit)
            (Some (case gc_tag commit of None \<Rightarrow> [] | Some t \<Rightarrow> t)) ''1'']
         @ (if connected
            then [edge_cell (''conn'' @ show_nat cellId) None
                    (Some (connector_source parsed commit (gg_commits parsed ! (index - 1))))
                    (Some (gc_id commit))]
            else [])
         @ (if truthy (gc_tag commit)
            then [vertex_cell (''tag_'' @ gc_id commit)
                    (Some (escapeXML (case gc_tag commit of None \<Rightarrow> [] | Some t \<Rightarrow> t))) ''1'']
            else [])
         @ commit_cells parsed (index + 1) (if connected then cellId + 1 else cellId) rest)"

definition generateGitGraphXML :: "gitgraph \<Rightarrow> cell list" where
  "generateGitGraphXML parsed =
     map (\<lambda>b. vertex_cell (''branch_'' @ gb_name b) (Some (escapeXML (gb_name b))) ''1'')
       (gg_branches parsed)
     @ commit_cells parsed 0 2 (gg_commits parsed)"

section \<open>Mindmaps: the parser\<close>

record mnode =
  mn_id :: string
  mn_label :: string
  mn_shape :: string
  mn_level :: nat
  mn_children :: "string list"
  mn_parentId :: "string option"

record mindmap =
  mm_nodes :: "mnode list"
  mm_root :: "string option"

text \<open>
  The state of the loop. The stack of the source has a sentinel at its bottom (id
  \<^verbatim>\<open>root\<close>, level -1) that the loop never pops; \<open>ms_stack\<close> is the part above the
  sentinel, the top first, as pairs of a node's id and level, and \<open>ms_top\<close> is the
  list of children of the sentinel. The list \<^verbatim>\<open>children\<close> of a node object is shared
  by the node on the stack and its copy in \<^verbatim>\<open>nodes\<close>; the embedding keeps it, as
  the ids of the children, in the copy.
\<close>

record mind_state =
  ms_nodes :: "mnode list"
  ms_nodeId :: nat
  ms_stack :: "(string \<times> nat) list"
  ms_top :: "string list"

text \<open>\<^verbatim>\<open>line.search(/\S/)\<close> on a line that is not blank.\<close>

definition indent_of :: "string \<Rightarrow> nat" where
  "indent_of line = length (takeWhile is_ws line)"

text \<open>The label and the shape of a node, from the trimmed text of its line.\<close>

definition mind_shape :: "string \<Rightarrow> string \<times> string" where
  "mind_shape text =
     (if prefix ''(('' text \<and> suffix ''))'' text then (js_slice text 2 (-2), ''circle'')
      else if prefix ''{{'' text \<and> suffix ''}}'' text then (js_slice text 2 (-2), ''hexagon'')
      else if prefix ''('' text \<and> suffix '')'' text then (js_slice text 1 (-1), ''rounded'')
      else if prefix ''['' text \<and> suffix '']'' text then (js_slice text 1 (-1), ''square'')
      else if prefix '')'' text \<and> suffix ''('' text then (js_slice text 1 (-1), ''cloud'')
      else (text, ''default''))"

text \<open>\<^verbatim>\<open>while (stack.length > 1 && stack[stack.length - 1].level >= level) stack.pop()\<close>\<close>

fun pop_stack :: "nat \<Rightarrow> (string \<times> nat) list \<Rightarrow> (string \<times> nat) list" where
  "pop_stack level [] = []"
| "pop_stack level (last_pushed # rest) =
     (if snd last_pushed \<ge> level then pop_stack level rest else last_pushed # rest)"

text \<open>\<^verbatim>\<open>parent.children.push(node)\<close> for a parent above the sentinel.\<close>

definition add_child :: "string \<Rightarrow> string \<Rightarrow> mnode list \<Rightarrow> mnode list" where
  "add_child parent child ns =
     map (\<lambda>n. if mn_id n = parent then n\<lparr>mn_children := mn_children n @ [child]\<rparr> else n) ns"

definition mind_skipped :: "string \<Rightarrow> bool" where
  "mind_skipped line = (trim line = ''mindmap'' \<or> trim line = [])"

definition mind_line :: "mind_state \<Rightarrow> string \<Rightarrow> mind_state" where
  "mind_line st line =
     (if mind_skipped line then st
      else
       (let level = indent_of line div 2;
            (label, shape) = mind_shape (trim line);
            ident = ''node'' @ show_nat (ms_nodeId st);
            stack = pop_stack level (ms_stack st);
            node = \<lparr>mn_id = ident, mn_label = label, mn_shape = shape, mn_level = level,
                    mn_children = [],
                    mn_parentId = (case stack of [] \<Rightarrow> None | parent # _ \<Rightarrow> Some (fst parent))\<rparr>
        in \<lparr>ms_nodes = (case stack of [] \<Rightarrow> ms_nodes st
                                   | parent # _ \<Rightarrow> add_child (fst parent) ident (ms_nodes st))
                        @ [node],
            ms_nodeId = ms_nodeId st + 1,
            ms_stack = (ident, level) # stack,
            ms_top = (case stack of [] \<Rightarrow> ms_top st @ [ident] | _ \<Rightarrow> ms_top st)\<rparr>))"

definition mind_init :: mind_state where
  "mind_init = \<lparr>ms_nodes = [], ms_nodeId = 0, ms_stack = [], ms_top = []\<rparr>"

definition parseMindmap :: "string \<Rightarrow> mindmap" where
  "parseMindmap mermaidCode =
     (let st = foldl mind_line mind_init (split_nl (trim mermaidCode))
      in \<lparr>mm_nodes = ms_nodes st,
          mm_root = (case ms_top st of [] \<Rightarrow> None | r # _ \<Rightarrow> Some r)\<rparr>)"

text \<open>
  The statement of the specification read as predicates of a parsed model: every node
  but the root has a parent.
\<close>

definition nonroot_has_parent :: "mindmap \<Rightarrow> bool" where
  "nonroot_has_parent m =
     (\<forall>n\<in>set (mm_nodes m). Some (mn_id n) \<noteq> mm_root m \<longrightarrow> mn_parentId n \<noteq> None)"

text \<open>Notions for stating what the parser builds: the id of the \<open>k\<close>-th node, the
  levels of the lines that become nodes, the value of a decimal numeral, and the
  indices that stand on the stack after a list of levels (the latest first).\<close>

definition node_id :: "nat \<Rightarrow> string" where
  "node_id k = ''node'' @ show_nat k"

definition line_levels :: "string \<Rightarrow> nat list" where
  "line_levels mermaidCode =
     map (\<lambda>l. indent_of l div 2) (filter (\<lambda>l. \<not> mind_skipped l) (split_nl (trim mermaidCode)))"

definition nat_of_digits :: "string \<Rightarrow> nat" where
  "nat_of_digits ds = foldl (\<lambda>a c. 10 * a + (of_char c - 48)) 0 ds"

fun stack_indices :: "nat list \<Rightarrow> nat list" where
  "stack_indices [] = []"
| "stack_indices (l # before) =
     length before # dropWhile (\<lambda>j. rev before ! j \<ge> l) (stack_indices before)"

text \<open>The nearest index before \<open>i\<close> whose level is strictly smaller than that of
  \<open>i\<close>, searched from \<open>i - 1\<close> downwards.\<close>

definition nearest_smaller :: "nat list \<Rightarrow> nat \<Rightarrow> nat option" where
  "nearest_smaller L i = find (\<lambda>j. L ! j < L ! i) (rev [0..<i])"

definition mind_inv :: "nat list \<Rightarrow> mind_state \<Rightarrow> bool" where
  "mind_inv L st =
     (ms_nodeId st = length L \<and> length (ms_nodes st) = length L
      \<and> (\<forall>i<length L. mn_id (ms_nodes st ! i) = node_id i \<and> mn_level (ms_nodes st ! i) = L ! i
            \<and> mn_parentId (ms_nodes st ! i) = map_option node_id (nearest_smaller L i))
      \<and> ms_stack st = map (\<lambda>j. (node_id j, L ! j)) (stack_indices (rev L))
      \<and> ms_top st = map node_id (filter (\<lambda>i. nearest_smaller L i = None) [0..<length L]))"

section \<open>Mindmaps: the radial layout\<close>

text \<open>
  \<^verbatim>\<open>buildTree\<close> copies the nodes into a map by id, appends every node that has a
  parent id to the children of the map's entry for it, and returns the last node
  without a parent id. A tree is an id with its subtrees. The ids of a parsed list are
  pairwise different and a parent stands before its child, so no branch is longer than
  the list: the recursion is cut at that depth.
\<close>

datatype ltree = LNode string "ltree list"

fun subtree :: "nat \<Rightarrow> mnode list \<Rightarrow> string \<Rightarrow> ltree" where
  "subtree 0 nodeList ident = LNode ident []"
| "subtree (Suc depth) nodeList ident =
     LNode ident (map (\<lambda>n. subtree depth nodeList (mn_id n))
                   (filter (\<lambda>n. mn_parentId n = Some ident) nodeList))"

definition buildTree :: "mnode list \<Rightarrow> ltree option" where
  "buildTree nodeList =
     (case filter (\<lambda>n. \<not> truthy (mn_parentId n)) nodeList of
        [] \<Rightarrow> None
      | r # rs \<Rightarrow> Some (subtree (length nodeList) nodeList (mn_id (last (r # rs)))))"

record position =
  p_x :: real
  p_y :: real
  p_centerX :: real
  p_centerY :: real
  p_width :: real
  p_height :: real

definition CANVAS_WIDTH :: real where "CANVAS_WIDTH = 2400"
definition CANVAS_HEIGHT :: real where "CANVAS_HEIGHT = 1800"
definition CENTER_X :: real where "CENTER_X = CANVAS_WIDTH / 2"
definition CENTER_Y :: real where "CENTER_Y = CANVAS_HEIGHT / 2"

text \<open>\<^verbatim>\<open>LEVEL_RADII[level] || 150\<close> with \<^verbatim>\<open>LEVEL_RADII = [0, 350, 280, 220, 180]\<close>: the
  entry 0 of level 0 is false, so it gives 150 as well.\<close>

definition level_radius :: "nat \<Rightarrow> real" where
  "level_radius level =
     (if level = 1 then 350 else if level = 2 then 280 else if level = 3 then 220
      else if level = 4 then 180 else 150)"

text \<open>\<^verbatim>\<open>NODE_SIZES[level] || NODE_SIZES[3]\<close>, as width and height.\<close>

definition node_size :: "nat \<Rightarrow> real \<times> real" where
  "node_size level =
     (if level = 0 then (180, 90) else if level = 1 then (160, 70)
      else if level = 2 then (140, 55) else (120, 45))"

text \<open>
  \<^verbatim>\<open>calculateNodePositions\<close>, as the list of the entries it sets in
  \<^verbatim>\<open>nodePositions\<close>, in the order of the calls. The second function is the
  \<^verbatim>\<open>forEach\<close> over the children, from the child with the given index on.
\<close>

primrec calculateNodePositions :: "ltree \<Rightarrow> real \<Rightarrow> real \<Rightarrow> real \<Rightarrow> nat \<Rightarrow> (string \<times> position) list"
  and position_children :: "ltree list \<Rightarrow> nat \<Rightarrow> nat \<Rightarrow> real \<Rightarrow> real \<Rightarrow> real \<Rightarrow> real \<Rightarrow> real \<Rightarrow> nat
      \<Rightarrow> (string \<times> position) list" where
  "calculateNodePositions (LNode ident children) angle parentX parentY level =
     (let radius = level_radius level;
          width = fst (node_size level);
          height = snd (node_size level);
          x = (if level = 0 then CENTER_X - width / 2
               else parentX + cos angle * radius - width / 2);
          y = (if level = 0 then CENTER_Y - height / 2
               else parentY + sin angle * radius - height / 2);
          childCount = length children;
          fanAngle = pi * (if level = 0 then 2 else 1.2);
          startAngle = (if level = 0 then 0 else angle - fanAngle / 2);
          angleStep = fanAngle / real (max (childCount - 1) 1)
      in (ident, \<lparr>p_x = x, p_y = y, p_centerX = x + width / 2, p_centerY = y + height / 2,
                  p_width = width, p_height = height\<rparr>)
         # position_children children 0 childCount startAngle angleStep angle
             (x + width / 2) (y + height / 2) (level + 1))"
| "position_children [] index childCount startAngle angleStep angle centerX centerY level = []"
| "position_children (child # rest) index childCount startAngle angleStep angle centerX centerY level =
     calculateNodePositions child
       (if childCount = 1 then angle else startAngle + real index * angleStep)
       centerX centerY level
     @ position_children rest (index + 1) childCount startAngle angleStep angle centerX centerY level"





section \<open>Entity-relationship graphs: the parser\<close>

record attribute =
  at_type :: string
  at_name :: string
  at_constraint :: "string option"

record entity =
  en_name :: string
  en_attributes :: "attribute list"

record relationship =
  rl_source :: string
  rl_target :: string
  rl_sourceCardinality :: string
  rl_targetCardinality :: string
  rl_label :: string

record erdiagram =
  er_entities :: "entity list"
  er_relationships :: "relationship list"

record er_state =
  es_entities :: "entity js_map"
  es_relationships :: "relationship list"
  es_currentEntity :: "string option"

text \<open>\<^verbatim>\<open>(\|\||o\||\|o|\}o|o\{|\}\||\|\{)\<close>\<close>

definition cardinality :: regex where
  "cardinality = alts [str ''||'', str ''o|'', str ''|o'', str ''}o'', str ''o{'', str ''}|'', str ''|{'']"

text \<open>\<^verbatim>\<open>/^(\w+)\s+(CARD)\s*--\s*(CARD)\s+(\w+)\s*:\s*(.+)$/\<close>\<close>

definition er_rel_re :: regex where
  "er_rel_re = cats [Grp 1 (Plus word), Plus space, Grp 2 cardinality, Star space, str ''--'',
     Star space, Grp 3 cardinality, Plus space, Grp 4 (Plus word), Star space, lit CHR '':'',
     Star space, Grp 5 (Plus dot), Eol]"

text \<open>\<^verbatim>\<open>/^(\w+)\s*\{$/\<close>\<close>

definition entity_re :: regex where
  "entity_re = cats [Grp 1 (Plus word), Star space, lit CHR ''{'', Eol]"

text \<open>\<^verbatim>\<open>/^(\w+)\s+(\w+)(?:\s+(PK|FK|UK))?/\<close>\<close>

definition attr_re :: regex where
  "attr_re = cats [Grp 1 (Plus word), Plus space, Grp 2 (Plus word),
     Opt (cats [Plus space, Grp 3 (alts [str ''PK'', str ''FK'', str ''UK''])])]"

text \<open>\<^verbatim>\<open>if (!entities.has(name)) entities.set(name, { name, attributes: [] })\<close>\<close>

definition ensure_entity :: "entity js_map \<Rightarrow> string \<Rightarrow> entity js_map" where
  "ensure_entity m name =
     (if \<not> map_has m name then map_set m name \<lparr>en_name = name, en_attributes = []\<rparr> else m)"

definition er_line :: "er_state \<Rightarrow> string \<Rightarrow> js_error + er_state" where
  "er_line st line =
     (let trimmed = trim line in
      if trimmed = ''erDiagram'' \<or> trimmed = [] then Inr st
      else
     (case js_match er_rel_re 5 trimmed of
        Some relMatch \<Rightarrow>
          Inr (st\<lparr>es_entities :=
                     ensure_entity (ensure_entity (es_entities st) (capture relMatch 1))
                       (capture relMatch 4),
                   es_relationships := es_relationships st @
                     [\<lparr>rl_source = capture relMatch 1, rl_target = capture relMatch 4,
                       rl_sourceCardinality = capture relMatch 2,
                       rl_targetCardinality = capture relMatch 3,
                       rl_label = trim (capture relMatch 5)\<rparr>]\<rparr>)
      | None \<Rightarrow>
     (case js_match entity_re 1 trimmed of
        Some entityMatch \<Rightarrow>
          Inr (st\<lparr>es_currentEntity := Some (capture entityMatch 1),
                   es_entities := ensure_entity (es_entities st) (capture entityMatch 1)\<rparr>)
      | None \<Rightarrow>
          if trimmed = ''}'' then Inr (st\<lparr>es_currentEntity := None\<rparr>)
          else if truthy (es_currentEntity st)
          then (case js_match attr_re 3 trimmed of
                  Some attrMatch \<Rightarrow>
                    (case map_get (es_entities st) (capture [es_currentEntity st] 0) of
                       None \<Rightarrow> Inl TypeError
                     | Some e \<Rightarrow>
                         Inr (st\<lparr>es_entities :=
                                map_set (es_entities st) (capture [es_currentEntity st] 0)
                                  (e\<lparr>en_attributes := en_attributes e @
                                     [\<lparr>at_type = capture attrMatch 1, at_name = capture attrMatch 2,
                                       at_constraint = attrMatch ! 3\<rparr>]\<rparr>)\<rparr>))
                | None \<Rightarrow> Inr st)
          else Inr st)))"

fun er_lines :: "er_state \<Rightarrow> string list \<Rightarrow> js_error + er_state" where
  "er_lines st [] = Inr st"
| "er_lines st (l # ls) =
     (case er_line st l of Inl e \<Rightarrow> Inl e | Inr st' \<Rightarrow> er_lines st' ls)"

definition parseERDiagram :: "string \<Rightarrow> js_error + erdiagram" where
  "parseERDiagram mermaidCode =
     (case er_lines \<lparr>es_entities = [], es_relationships = [], es_currentEntity = None\<rparr>
             (split_nl (trim mermaidCode)) of
        Inl e \<Rightarrow> Inl e
      | Inr st \<Rightarrow> Inr \<lparr>er_entities = map_values (es_entities st),
                         er_relationships = es_relationships st\<rparr>)"

section \<open>Entity-relationship graphs: the generator\<close>

record box =
  b_x :: int
  b_y :: int
  b_width :: int
  b_height :: int

text \<open>The place of the entity with the given index on the grid of four columns:
  \<^verbatim>\<open>GRID_X[col] || GRID_X[0] + col * 400\<close> and the same for the rows, with
  \<^verbatim>\<open>GRID_X = [40, 440, 840, 1240]\<close> and \<^verbatim>\<open>GRID_Y = [40, 390, 740, 1090]\<close>.\<close>

definition er_box :: "nat \<Rightarrow> entity \<Rightarrow> box" where
  "er_box index entity =
     (let col = index mod 4; row = index div 4
      in \<lparr>b_x = [40, 440, 840, 1240] ! col,
          b_y = (if row < 4 then [40, 390, 740, 1090] ! row else 40 + int row * 350),
          b_width = 200,
          b_height = 30 + int (length (en_attributes entity)) * 22\<rparr>)"

definition entityPositions :: "entity list \<Rightarrow> box js_map" where
  "entityPositions entities =
     foldl (\<lambda>m (index, entity). map_set m (en_name entity) (er_box index entity)) []
       (enumerate 0 entities)"

definition attr_label :: "attribute \<Rightarrow> string" where
  "attr_label attr =
     at_type attr @ '' '' @ at_name attr
       @ (if truthy (at_constraint attr) then '' '' @ capture [at_constraint attr] 0 else [])"

definition entity_cells :: "entity \<Rightarrow> cell list" where
  "entity_cells entity =
     vertex_cell (en_name entity) (Some (escapeXML (en_name entity))) ''1''
     # map (\<lambda>(attrIndex, attr).
              vertex_cell (en_name entity @ ''_attr'' @ show_nat attrIndex)
                (Some (escapeXML (attr_label attr))) (en_name entity))
         (enumerate 0 (en_attributes entity))"

text \<open>The loop over the relationships; \<^verbatim>\<open>cellId\<close> counts the relationships seen.\<close>

fun relationship_cells :: "box js_map \<Rightarrow> nat \<Rightarrow> relationship list \<Rightarrow> cell list" where
  "relationship_cells positions cellId [] = []"
| "relationship_cells positions cellId (rel # rest) =
     (if map_get positions (rl_source rel) = None \<or> map_get positions (rl_target rel) = None
      then []
      else [edge_cell (''rel'' @ show_nat cellId) (Some (escapeXML (rl_label rel)))
              (Some (rl_source rel)) (Some (rl_target rel))])
     @ relationship_cells positions (cellId + 1) rest"

definition generateERDiagramXML :: "erdiagram \<Rightarrow> cell list" where
  "generateERDiagramXML parsed =
     concat (map entity_cells (er_entities parsed))
     @ relationship_cells (entityPositions (er_entities parsed)) 2 (er_relationships parsed)"


section \<open>Class graphs: the parser\<close>





















section \<open>Class graphs: the generator\<close>








section \<open>Sequence graphs: the parser\<close>
















section \<open>Sequence graphs: the generator\<close>







section \<open>Flow graphs: the layout and the generator\<close>

text \<open>\<^verbatim>\<open>calculateFlowchartLayout\<close>: the nodes in a line, 120 apart downwards or 200 apart
  to the right, from (340, 40).\<close>

definition calculateFlowchartLayout :: "fnode list \<Rightarrow> bool \<Rightarrow> (int \<times> int) js_map" where
  "calculateFlowchartLayout nodes isVertical =
     foldl (\<lambda>m (index, node).
              map_set m (fn_id node)
                (if isVertical then (340, 40 + int index * 120) else (340 + int index * 200, 40)))
       [] (enumerate 0 nodes)"

fun flow_edge_cells :: "nat \<Rightarrow> fedge list \<Rightarrow> cell list" where
  "flow_edge_cells cellId [] = []"
| "flow_edge_cells cellId (edge # rest) =
     edge_cell (''e'' @ show_nat cellId)
       (if truthy (fe_label edge) then Some (escapeXML (capture [fe_label edge] 0)) else None)
       (Some (fe_source edge)) (Some (fe_target edge))
     # flow_edge_cells (cellId + 1) rest"

definition generateFlowchartXML :: "flowchart \<Rightarrow> cell list" where
  "generateFlowchartXML parsed =
     map (\<lambda>node. vertex_cell (fn_id node) (Some (escapeXML (fn_label node))) ''1'') (fc_nodes parsed)
     @ flow_edge_cells 2 (fc_edges parsed)"

section \<open>Mindmaps: the generator\<close>

text \<open>
  The loop of \<^verbatim>\<open>generateMindmapXML\<close> over the parsed nodes: a node without an entry
  in \<^verbatim>\<open>nodePositions\<close> is skipped together with its connector; a positioned node
  gets its cell and, when it has a parent id and the parent is positioned, a connector
  from the parent. \<open>positions\<close> is the list of the entries set by the layout.
  The layout starts from the node that \<^verbatim>\<open>buildTree\<close> returns, the last node without
  a parent, and sets an entry for every node of its tree only.
\<close>

fun mindmap_cells :: "(string \<times> position) list \<Rightarrow> nat \<Rightarrow> mnode list \<Rightarrow> cell list" where
  "mindmap_cells positions cellId [] = []"
| "mindmap_cells positions cellId (node # rest) =
     (if mn_id node \<notin> set (map fst positions) then mindmap_cells positions cellId rest
      else vertex_cell (mn_id node) (Some (escapeXML (mn_label node))) ''1''
           # (if (case mn_parentId node of
                      None \<Rightarrow> False
                    | Some parentId \<Rightarrow> parentId \<noteq> [] \<and> parentId \<in> set (map fst positions))
              then edge_cell (''conn'' @ show_nat cellId) None (mn_parentId node) (Some (mn_id node))
                   # mindmap_cells positions (cellId + 1) rest
              else mindmap_cells positions cellId rest))"

definition generateMindmapXML :: "mindmap \<Rightarrow> cell list" where
  "generateMindmapXML parsed =
     (if \<not> truthy (mm_root parsed) then []
      else mindmap_cells
             (case buildTree (mm_nodes parsed) of
                None \<Rightarrow> []
              | Some treeRoot \<Rightarrow> calculateNodePositions treeRoot 0 CENTER_X CENTER_Y 0)
             2 (mm_nodes parsed))"

section \<open>Flow graphs: the invariant of the parser\<close>

text \<open>The invariant of the loop of \<^verbatim>\<open>parseFlowchart\<close>: a node is stored under its id,
  and no key occurs twice.\<close>

definition flow_inv :: "fnode js_map \<Rightarrow> bool" where
  "flow_inv m = ((\<forall>p\<in>set m. fn_id (snd p) = fst p) \<and> distinct (map fst m))"

chapter \<open>Properties\<close>

section \<open>Escaping\<close>

lemma replaceAll_char_Cons:
  "replaceAll_char c rep (x # xs) = (if x = c then rep else [x]) @ replaceAll_char c rep xs"
  by (simp add: replaceAll_char_def)

lemma replaceAll_char_Nil: "replaceAll_char c rep [] = []"
  by (simp add: replaceAll_char_def)

lemma replaceAll_char_append:
  "replaceAll_char c rep (xs @ ys) = replaceAll_char c rep xs @ replaceAll_char c rep ys"
  by (simp add: replaceAll_char_def)

lemma escapeXML_Nil: "escapeXML [] = []"
  by (simp add: escapeXML_def replaceAll_char_Nil)

lemma escapeXML_Cons: "escapeXML (x # xs) = escape_char x @ escapeXML xs"
  by (simp add: escapeXML_def escape_char_def replaceAll_char_Cons replaceAll_char_append
      replaceAll_char_Nil)

lemma escapeXML_concat: "escapeXML s = concat (map escape_char s)"
  by (induction s) (simp_all add: escapeXML_Nil escapeXML_Cons)

lemma decode_escape_char: "decodeEntities (escape_char x @ r) = x # decodeEntities r"
  by (simp add: escape_char_def)

lemma decode_escapeXML: "decodeEntities (escapeXML s) = s"
  by (induction s) (simp_all add: escapeXML_Nil escapeXML_Cons decode_escape_char)

text \<open>
  Claim C4. For every label, escaping replaces each occurrence of the five
  metacharacters by its entity and keeps every other character, and decoding the five
  entities in the escaped text gives the label back.
\<close>

theorem escapeXML_roundtrip:
  "escapeXML s = concat (map escape_char s) \<and> decodeEntities (escapeXML s) = s"
  using escapeXML_concat decode_escapeXML by simp

theorem escapeXML_roundtrip_witness:
  "escapeXML [CHR ''a'', CHR ''&'', CHR ''<'', CHR 0x22, CHR ''>'', CHR 0x27, CHR ''&'', CHR ''l'', CHR ''t'', CHR '';'']
     = ''a&amp;&lt;&quot;&gt;&apos;&amp;lt;''
   \<and> decodeEntities (escapeXML [CHR ''a'', CHR ''&'', CHR ''<'', CHR 0x22, CHR ''>'', CHR 0x27, CHR ''&'', CHR ''l'', CHR ''t'', CHR '';''])
     = [CHR ''a'', CHR ''&'', CHR ''<'', CHR 0x22, CHR ''>'', CHR 0x27, CHR ''&'', CHR ''l'', CHR ''t'', CHR '';'']"
  using escapeXML_roundtrip
    [of "[CHR ''a'', CHR ''&'', CHR ''<'', CHR 0x22, CHR ''>'', CHR 0x27, CHR ''&'', CHR ''l'', CHR ''t'', CHR '';'']"]
  by (simp add: escape_char_def)

section \<open>Type detection\<close>

lemma split_nl_nonempty: "split_nl s \<noteq> []"
  by (induction s) (auto split: list.splits)

lemma hd_split_nl: "hd (split_nl s) = takeWhile (\<lambda>c. c \<noteq> CHR 0x0A) s"
  using split_nl_nonempty by (induction s) (auto split: list.splits)

lemma is_ws_toLowerChar: "is_ws c \<Longrightarrow> toLowerChar c = c"
  by (auto simp: is_ws_def toLowerChar_def Let_def)

lemma prefix_ws_free:
  assumes "\<forall>c\<in>set k. \<not> is_ws c" "\<forall>c\<in>set w. is_ws c"
  shows "prefix k (x @ w) \<longleftrightarrow> prefix k x"
proof
  assume "prefix k (x @ w)"
  then consider "prefix k x" | us where "k = x @ us" "prefix us w"
    by (auto simp: prefix_append)
  then show "prefix k x"
  proof cases
    case 1
    then show ?thesis .
  next
    case 2
    have "us = []"
    proof (rule ccontr)
      assume "us \<noteq> []"
      then have "hd us \<in> set us" by simp
      with 2 have "hd us \<in> set k" "hd us \<in> set w"
        using set_mono_prefix by auto
      with assms show False by blast
    qed
    with 2 show ?thesis by simp
  qed
next
  assume "prefix k x"
  then show "prefix k (x @ w)" by (simp add: prefix_prefix)
qed

lemma includes_ws_only:
  assumes "\<forall>c\<in>set k. \<not> is_ws c" "k \<noteq> []"
  shows "(\<forall>c\<in>set w. is_ws c) \<Longrightarrow> \<not> includes_str k w"
proof (induction w)
  case Nil
  then show ?case using assms by simp
next
  case (Cons a w)
  have "\<not> prefix k (a # w)"
  proof
    assume "prefix k (a # w)"
    then have "hd k = a" using assms(2) by (cases k) auto
    moreover have "hd k \<in> set k" using assms(2) by simp
    ultimately show False using assms(1) Cons.prems by auto
  qed
  with Cons show ?case by simp
qed

lemma includes_ws_tail:
  assumes "\<forall>c\<in>set k. \<not> is_ws c" "k \<noteq> []" "\<forall>c\<in>set w. is_ws c"
  shows "includes_str k (x @ w) \<longleftrightarrow> includes_str k x"
proof (induction x)
  case Nil
  then show ?case using includes_ws_only[OF assms(1,2) assms(3)] assms(2) by simp
next
  case (Cons a x)
  have "prefix k ((a # x) @ w) \<longleftrightarrow> prefix k (a # x)"
    using prefix_ws_free[OF assms(1) assms(3)] .
  with Cons show ?case by simp
qed

lemma dropWhile_lead:
  assumes "\<forall>c\<in>set lead. is_ws c" "v \<noteq> []" "\<not> is_ws (hd v)"
  shows "dropWhile is_ws (lead @ v @ t) = v @ t"
proof -
  have "dropWhile is_ws (lead @ v @ t) = dropWhile is_ws (v @ t)"
    using assms(1) by (simp add: dropWhile_append)
  also have "\<dots> = v @ t" using assms(2,3) by (cases v) auto
  finally show ?thesis .
qed

lemma rtrim_keep:
  assumes "v \<noteq> []" "\<not> is_ws (last v)"
  shows "rev (dropWhile is_ws (rev (v @ t))) = v @ rev (dropWhile is_ws (rev t))"
proof -
  have r: "dropWhile is_ws (rev v) = rev v"
    using assms by (cases "rev v") (auto simp: last_rev hd_rev[symmetric])
  show ?thesis
    by (simp add: dropWhile_append r)
qed

lemma takeWhile_rtrim_subset:
  "set (takeWhile P (rev (dropWhile Q (rev t)))) \<subseteq> set (takeWhile P t)"
  by (metis prefix_takeWhile rev_rev_ident set_mono_prefix suffix_dropWhile suffix_to_prefix)

lemma trail_first_line_ws:
  assumes "\<forall>c\<in>set trail. is_ws c" "rest = [] \<or> hd rest = CHR 0x0A"
  shows "\<forall>c\<in>set (takeWhile (\<lambda>c. c \<noteq> CHR 0x0A) (rev (dropWhile is_ws (rev (trail @ rest))))). is_ws c"
proof -
  have "set (takeWhile (\<lambda>c. c \<noteq> CHR 0x0A) (trail @ rest)) \<subseteq> set trail"
  proof (cases rest)
    case Nil
    then show ?thesis using set_takeWhileD by fastforce
  next
    case (Cons a r)
    with assms(2) have "a = CHR 0x0A" by simp
    with Cons show ?thesis
      by (auto simp: takeWhile_append dest: set_takeWhileD)
  qed
  with takeWhile_rtrim_subset[of "\<lambda>c. c \<noteq> CHR 0x0A" is_ws "trail @ rest"] assms(1)
  show ?thesis by blast
qed

lemma trim_keyword:
  assumes v: "v \<noteq> []" "\<not> is_ws (hd v)" "\<not> is_ws (last v)"
    and lead: "\<forall>c\<in>set lead. is_ws c"
  shows "trim (lead @ v @ t) = v @ rev (dropWhile is_ws (rev t))"
proof -
  have "trim (lead @ v @ t) = rev (dropWhile is_ws (rev (v @ t)))"
    unfolding trim_def by (simp only: dropWhile_lead[OF lead v(1) v(2)])
  also have "\<dots> = v @ rev (dropWhile is_ws (rev t))"
    by (rule rtrim_keep[OF v(1) v(3)])
  finally show ?thesis .
qed

lemma first_line_keyword:
  assumes v: "v \<noteq> []" "\<forall>c\<in>set v. \<not> is_ws c"
    and lead: "\<forall>c\<in>set lead. is_ws c"
    and trail: "\<forall>c\<in>set trail. is_ws c"
    and rest: "rest = [] \<or> hd rest = CHR 0x0A"
  shows "\<exists>w. (\<forall>c\<in>set w. is_ws c) \<and> first_line (lead @ v @ trail @ rest) = toLowerCase v @ w"
proof -
  define Y where "Y = rev (dropWhile is_ws (rev (trail @ rest)))"
  define w where "w = takeWhile (\<lambda>c. c \<noteq> CHR 0x0A) Y"
  have hdv: "\<not> is_ws (hd v)" and lastv: "\<not> is_ws (last v)"
    using v by auto
  have nl: "\<forall>c\<in>set v. c \<noteq> CHR 0x0A"
    using v(2) by (auto simp: is_ws_def)
  have t: "trim (lead @ v @ trail @ rest) = v @ Y"
    unfolding Y_def by (rule trim_keyword[OF v(1) hdv lastv lead])
  have "takeWhile (\<lambda>c. c \<noteq> CHR 0x0A) (v @ Y) = v @ w"
    unfolding w_def using nl by (simp add: takeWhile_append)
  then have h: "hd (split_nl (trim (lead @ v @ trail @ rest))) = v @ w"
    by (simp only: t hd_split_nl)
  have ws: "\<forall>c\<in>set w. is_ws c"
    unfolding w_def Y_def using trail_first_line_ws[OF trail rest] .
  have "map toLowerChar w = w"
    using ws by (simp add: is_ws_toLowerChar map_idI)
  then have "first_line (lead @ v @ trail @ rest) = toLowerCase v @ w"
    unfolding first_line_def toLowerCase_def by (simp only: h map_append)
  with ws show ?thesis by blast
qed

lemma lower_keywords:
  "toLowerCase ''gitGraph'' = ''gitgraph''"
  "toLowerCase ''erDiagram'' = ''erdiagram''"
  "toLowerCase ''sequenceDiagram'' = ''sequencediagram''"
  "toLowerCase ''classDiagram'' = ''classdiagram''"
  "toLowerCase ''mindmap'' = ''mindmap''"
  "toLowerCase ''flowchart'' = ''flowchart''"
  "toLowerCase ''graph'' = ''graph''"
  by code_simp+

lemma keywords_ws_free:
  "\<forall>c\<in>set ''gitgraph''. \<not> is_ws c"
  "\<forall>c\<in>set ''erdiagram''. \<not> is_ws c"
  "\<forall>c\<in>set ''sequencediagram''. \<not> is_ws c"
  "\<forall>c\<in>set ''classdiagram''. \<not> is_ws c"
  "\<forall>c\<in>set ''mindmap''. \<not> is_ws c"
  "\<forall>c\<in>set ''flowchart''. \<not> is_ws c"
  "\<forall>c\<in>set ''graph''. \<not> is_ws c"
  by (simp_all add: is_ws_def)

lemma includes_keyword_tail:
  assumes "\<forall>c\<in>set w. is_ws c"
  shows "includes_str ''gitgraph'' (x @ w) = includes_str ''gitgraph'' x"
    "includes_str ''erdiagram'' (x @ w) = includes_str ''erdiagram'' x"
    "includes_str ''sequencediagram'' (x @ w) = includes_str ''sequencediagram'' x"
    "includes_str ''classdiagram'' (x @ w) = includes_str ''classdiagram'' x"
    "includes_str ''mindmap'' (x @ w) = includes_str ''mindmap'' x"
    "includes_str ''flowchart'' (x @ w) = includes_str ''flowchart'' x"
    "includes_str ''graph'' (x @ w) = includes_str ''graph'' x"
  using includes_ws_tail[OF keywords_ws_free(1) _ assms, of x]
    includes_ws_tail[OF keywords_ws_free(2) _ assms, of x]
    includes_ws_tail[OF keywords_ws_free(3) _ assms, of x]
    includes_ws_tail[OF keywords_ws_free(4) _ assms, of x]
    includes_ws_tail[OF keywords_ws_free(5) _ assms, of x]
    includes_ws_tail[OF keywords_ws_free(6) _ assms, of x]
    includes_ws_tail[OF keywords_ws_free(7) _ assms, of x]
  by simp_all

lemma detect_first_line:
  "detectDiagramType s =
     (if includes_str ''gitgraph'' (first_line s) then ''gitgraph''
      else if includes_str ''erdiagram'' (first_line s) then ''erDiagram''
      else if includes_str ''sequencediagram'' (first_line s) then ''sequence''
      else if includes_str ''classdiagram'' (first_line s) then ''class''
      else if includes_str ''mindmap'' (first_line s) then ''mindmap''
      else if includes_str ''flowchart'' (first_line s) \<or> includes_str ''graph'' (first_line s)
      then ''flowchart''
      else ''unknown'')"
  unfolding detectDiagramType_def first_line_def Let_def ..

lemma case_option_if:
  "(case (if b then Some x else y) of None \<Rightarrow> n | Some v \<Rightarrow> f v) =
     (if b then f x else (case y of None \<Rightarrow> n | Some v \<Rightarrow> f v))"
  by simp

lemma if_disj_chain: "(if a \<or> b then x else y) = (if a then x else if b then x else y)"
  by simp

lemma detect_find:
  "detectDiagramType s =
     (case find (\<lambda>(kw, d). includes_str (toLowerCase kw) (first_line s)) dialect_keywords of
        Some (kw, d) \<Rightarrow> d | None \<Rightarrow> ''unknown'')"
  unfolding detect_first_line dialect_keywords_def
  by (simp only: find.simps prod.case lower_keywords case_option_if option.case if_disj_chain)

lemma detect_lowered:
  assumes "first_line s = K @ w" "\<forall>c\<in>set w. is_ws c"
  shows "K = ''gitgraph'' \<Longrightarrow> detectDiagramType s = ''gitgraph''"
    "K = ''erdiagram'' \<Longrightarrow> detectDiagramType s = ''erDiagram''"
    "K = ''sequencediagram'' \<Longrightarrow> detectDiagramType s = ''sequence''"
    "K = ''classdiagram'' \<Longrightarrow> detectDiagramType s = ''class''"
    "K = ''mindmap'' \<Longrightarrow> detectDiagramType s = ''mindmap''"
    "K = ''flowchart'' \<Longrightarrow> detectDiagramType s = ''flowchart''"
    "K = ''graph'' \<Longrightarrow> detectDiagramType s = ''flowchart''"
  unfolding detect_first_line assms(1) includes_keyword_tail[OF assms(2)]
  by simp_all

lemma case_variant_ws_free:
  assumes "toLowerCase v = K" "\<forall>c\<in>set K. \<not> is_ws c" "K \<noteq> []"
  shows "v \<noteq> [] \<and> (\<forall>c\<in>set v. \<not> is_ws c)"
proof -
  have "\<forall>c\<in>set v. \<not> is_ws (toLowerChar c)"
    using assms(1,2) unfolding toLowerCase_def by auto
  then have "\<forall>c\<in>set v. \<not> is_ws c"
    using is_ws_toLowerChar by fastforce
  moreover have "v \<noteq> []" using assms(1,3) unfolding toLowerCase_def by auto
  ultimately show ?thesis by simp
qed

lemma detect_keyword:
  assumes kw: "(kw, d) \<in> set dialect_keywords"
    and v: "toLowerCase v = toLowerCase kw"
    and lead: "\<forall>c\<in>set lead. is_ws c"
    and trail: "\<forall>c\<in>set trail. is_ws c"
    and rest: "rest = [] \<or> hd rest = CHR 0x0A"
  shows "detectDiagramType (lead @ v @ trail @ rest) = d"
proof -
  have K: "(\<forall>c\<in>set (toLowerCase kw). \<not> is_ws c) \<and> toLowerCase kw \<noteq> []"
    using kw keywords_ws_free unfolding dialect_keywords_def
    by (auto simp only: lower_keywords set_ConsD list.set prod.inject)
  from case_variant_ws_free[OF v] K have vv: "v \<noteq> []" "\<forall>c\<in>set v. \<not> is_ws c"
    by auto
  from first_line_keyword[OF vv lead trail rest] obtain w where
    w: "\<forall>c\<in>set w. is_ws c" "first_line (lead @ v @ trail @ rest) = toLowerCase kw @ w"
    using v by auto
  from kw show ?thesis
    unfolding dialect_keywords_def
    using detect_lowered[OF w(2) w(1)] lower_keywords by auto
qed

text \<open>
  Claim C3. A canonical keyword in any letter case, alone on the first non-blank line
  and followed by any white space, is classified as its dialect; the result is that of
  the first keyword, in the order commit-graph, er, sequence, class, mindmap, flow, that
  the lower-cased first line contains; a first line that contains none is unknown.
\<close>

theorem detectDiagramType_dialects:
  "((kw, d) \<in> set dialect_keywords \<and> toLowerCase v = toLowerCase kw
      \<and> (\<forall>c\<in>set lead. is_ws c) \<and> (\<forall>c\<in>set trail. is_ws c)
      \<and> (rest = [] \<or> hd rest = CHR 0x0A)
     \<longrightarrow> detectDiagramType (lead @ v @ trail @ rest) = d)
   \<and> detectDiagramType s =
       (case find (\<lambda>(kw, d). includes_str (toLowerCase kw) (first_line s)) dialect_keywords of
          Some (kw, d) \<Rightarrow> d | None \<Rightarrow> ''unknown'')
   \<and> ((\<forall>(kw, d)\<in>set dialect_keywords. \<not> includes_str (toLowerCase kw) (first_line s))
     \<longrightarrow> detectDiagramType s = ''unknown'')"
proof (intro conjI impI)
  assume "(kw, d) \<in> set dialect_keywords \<and> toLowerCase v = toLowerCase kw
      \<and> (\<forall>c\<in>set lead. is_ws c) \<and> (\<forall>c\<in>set trail. is_ws c)
      \<and> (rest = [] \<or> hd rest = CHR 0x0A)"
  then show "detectDiagramType (lead @ v @ trail @ rest) = d"
    using detect_keyword by blast
next
  show "detectDiagramType s =
       (case find (\<lambda>(kw, d). includes_str (toLowerCase kw) (first_line s)) dialect_keywords of
          Some (kw, d) \<Rightarrow> d | None \<Rightarrow> ''unknown'')"
    by (rule detect_find)
next
  assume a: "\<forall>(kw, d)\<in>set dialect_keywords. \<not> includes_str (toLowerCase kw) (first_line s)"
  have "find (\<lambda>(kw, d). includes_str (toLowerCase kw) (first_line s)) dialect_keywords = None"
    using a by (auto simp: find_None_iff)
  then show "detectDiagramType s = ''unknown''"
    by (simp add: detect_find)
qed

theorem detectDiagramType_dialects_witness:
  "detectDiagramType ([CHR 0x0A, CHR 0x20] @ ''GITGraph'' @ [CHR 0x20, CHR 0x09] @ (CHR 0x0A # ''commit''))
     = ''gitgraph''
   \<and> detectDiagramType ''graph TD'' = ''flowchart''
   \<and> detectDiagramType ''hello world'' = ''unknown''"
proof -
  have h1: "(''gitGraph'', ''gitgraph'') \<in> set dialect_keywords"
    by (simp add: dialect_keywords_def)
  have h2: "toLowerCase ''GITGraph'' = toLowerCase ''gitGraph''"
    by code_simp
  have h3: "\<forall>c\<in>set [CHR 0x0A, CHR 0x20]. is_ws c" "\<forall>c\<in>set [CHR 0x20, CHR 0x09]. is_ws c"
    by (simp_all add: is_ws_def)
  have h4: "CHR 0x0A # ''commit'' = [] \<or> hd (CHR 0x0A # ''commit'') = CHR 0x0A"
    by simp
  have h5: "\<forall>(kw, d)\<in>set dialect_keywords.
      \<not> includes_str (toLowerCase kw) (first_line ''hello world'')"
    by code_simp
  have h6: "find (\<lambda>(kw, d). includes_str (toLowerCase kw) (first_line ''graph TD'')) dialect_keywords
      = Some (''graph'', ''flowchart'')"
    by code_simp
  have a: "detectDiagramType ([CHR 0x0A, CHR 0x20] @ ''GITGraph'' @ [CHR 0x20, CHR 0x09] @ (CHR 0x0A # ''commit''))
     = ''gitgraph''"
    using detectDiagramType_dialects[of "''gitGraph''" "''gitgraph''" "''GITGraph''"
        "[CHR 0x0A, CHR 0x20]" "[CHR 0x20, CHR 0x09]" "CHR 0x0A # ''commit''" "''hello world''"]
      h1 h2 h3 h4 by blast
  have "detectDiagramType ''graph TD'' =
       (case find (\<lambda>(kw, d). includes_str (toLowerCase kw) (first_line ''graph TD'')) dialect_keywords of
          Some (kw, d) \<Rightarrow> d | None \<Rightarrow> ''unknown'')"
    using detectDiagramType_dialects[of "''gitGraph''" "''gitgraph''" "''GITGraph''"
        "[CHR 0x0A, CHR 0x20]" "[CHR 0x20, CHR 0x09]" "CHR 0x0A # ''commit''" "''graph TD''"]
    by blast
  then have b: "detectDiagramType ''graph TD'' = ''flowchart''"
    by (simp only: h6 option.case prod.case)
  have c: "detectDiagramType ''hello world'' = ''unknown''"
    using detectDiagramType_dialects[of "''gitGraph''" "''gitgraph''" "''GITGraph''"
        "[CHR 0x0A, CHR 0x20]" "[CHR 0x20, CHR 0x09]" "CHR 0x0A # ''commit''" "''hello world''"]
      h5 by blast
  from a b c show ?thesis by blast
qed

section \<open>Flow graphs: the example of the specification\<close>

text \<open>
  Claim C8. The three-line flow graph of the specification parses to the nodes A, B, C
  with the labels Start, Check, Done and the shape tags \<^verbatim>\<open>[]\<close> (rectangle),
  \<^verbatim>\<open>{}\<close> (diamond) and \<^verbatim>\<open>[]\<close>, and to the two edges A to B without a label and
  B to C with the label Yes, in this order.
\<close>

theorem parseFlowchart_example:
  "parseFlowchart (''flowchart TD'' @ [CHR 0x0A] @ ''A[Start] --> B{Check}'' @ [CHR 0x0A]
      @ ''B -->|Yes| C[Done]'') =
     \<lparr>fc_nodes = [\<lparr>fn_id = ''A'', fn_label = ''Start'', fn_shape = ''[]''\<rparr>,
                  \<lparr>fn_id = ''B'', fn_label = ''Check'', fn_shape = ''{}''\<rparr>,
                  \<lparr>fn_id = ''C'', fn_label = ''Done'', fn_shape = ''[]''\<rparr>],
      fc_edges = [\<lparr>fe_source = ''A'', fe_target = ''B'', fe_label = None\<rparr>,
                  \<lparr>fe_source = ''B'', fe_target = ''C'', fe_label = Some ''Yes''\<rparr>],
      fc_direction = ''TD''\<rparr>"
  by code_simp

theorem parseFlowchart_example_witness:
  "map fn_id (fc_nodes (parseFlowchart (''flowchart TD'' @ [CHR 0x0A] @ ''A[Start] --> B{Check}''
      @ [CHR 0x0A] @ ''B -->|Yes| C[Done]''))) = [''A'', ''B'', ''C'']
   \<and> length (fc_edges (parseFlowchart (''flowchart TD'' @ [CHR 0x0A] @ ''A[Start] --> B{Check}''
      @ [CHR 0x0A] @ ''B -->|Yes| C[Done]''))) = 2"
  unfolding parseFlowchart_example by simp

section \<open>Commit graphs: the branch registry\<close>

definition main_first :: "git_state \<Rightarrow> bool" where
  "main_first st = (\<exists>b rest. gs_branches st = (''main'', b) # rest \<and> gb_name b = ''main'')"

lemma main_first_init: "main_first git_init"
  by (simp add: main_first_def git_init_def)

lemma push_commit_main_first:
  assumes "main_first st" "push_commit st c = Inr st'"
  shows "main_first st'"
  using assms
  by (auto simp: main_first_def push_commit_def map_get_def split: option.splits if_splits)

lemma git_line_main_first:
  assumes "main_first st" "git_line st l = Inr st'"
  shows "main_first st'"
proof -
  have upd: "\<And>c n. main_first (st\<lparr>gs_commitId := n\<rparr>)"
    using assms(1) by (simp add: main_first_def)
  show ?thesis
    using assms push_commit_main_first[OF assms(1)] push_commit_main_first[OF upd]
    by (auto simp: git_line_def Let_def main_first_def split: option.splits if_splits)
qed

lemma git_lines_main_first:
  "main_first st \<Longrightarrow> git_lines st ls = Inr st' \<Longrightarrow> main_first st'"
proof (induction ls arbitrary: st)
  case Nil
  then show ?case by simp
next
  case (Cons l ls)
  then show ?case
    by (auto split: sum.splits dest: git_line_main_first)
qed

lemma parseGitGraph_main_first:
  assumes "parseGitGraph s = Inr g"
  shows "gg_branches g \<noteq> [] \<and> gb_name (hd (gg_branches g)) = ''main''"
proof -
  from assms obtain st where st: "git_lines git_init (split_nl (trim s)) = Inr st"
    and g: "g = \<lparr>gg_commits = gs_commits st, gg_branches = map_values (gs_branches st)\<rparr>"
    by (auto simp: parseGitGraph_def split: sum.splits)
  from git_lines_main_first[OF main_first_init st] show ?thesis
    by (auto simp: g main_first_def map_values_def)
qed

lemma push_commit_commits:
  "push_commit st c = Inr st' \<Longrightarrow>
     gs_commits st' = gs_commits st @ [c] \<and> gs_currentBranch st' = gs_currentBranch st"
  by (auto simp: push_commit_def split: option.splits)

lemma git_line_cases:
  obtains (skip) "git_line st l = Inr st" "\<not> makes_commit l" "\<not> switches_branch l"
  | (commit) c st0 where "git_line st l = push_commit st0 c" "gc_branch c = gs_currentBranch st"
      "gs_commits st0 = gs_commits st" "gs_branches st0 = gs_branches st"
      "gs_currentBranch st0 = gs_currentBranch st" "makes_commit l" "\<not> switches_branch l"
  | (switch) st' where "git_line st l = Inr st'" "gs_commits st' = gs_commits st"
      "switches_branch l" "\<not> makes_commit l"
proof (cases "skipped_line (trim l)")
  case True
  then have "git_line st l = Inr st" "\<not> makes_commit l" "\<not> switches_branch l"
    unfolding git_line_def makes_commit_def switches_branch_def Let_def
    by (simp_all only: if_True not_True_eq_False simp_thms)
  then show ?thesis by (rule skip)
next
  case ns: False
  show ?thesis
  proof (cases "js_match commit_re 3 (trim l)")
    case (Some m)
    have mc: "makes_commit l" "\<not> switches_branch l"
      using ns Some by (simp_all add: makes_commit_def switches_branch_def)
    define ty where "ty = (if truthy (m ! 3) then capture m 3 else ''NORMAL'')"
    show ?thesis
    proof (cases "truthy (m ! 1)")
      case t: True
      define c where "c = \<lparr>gc_id = capture m 1, gc_tag = or_null (m ! 2), gc_type = ty,
          gc_branch = gs_currentBranch st, gc_mergeFrom = None\<rparr>"
      have 1: "git_line st l = push_commit st c"
        unfolding git_line_def Let_def c_def ty_def
        by (simp only: ns if_False Some option.case t if_True)
      have 2: "gc_branch c = gs_currentBranch st" by (simp add: c_def)
      show ?thesis by (rule commit[OF 1 2 refl refl refl mc])
    next
      case f: False
      define c where "c = \<lparr>gc_id = ''c'' @ show_nat (gs_commitId st), gc_tag = or_null (m ! 2),
          gc_type = ty, gc_branch = gs_currentBranch st, gc_mergeFrom = None\<rparr>"
      define st0 where "st0 = st\<lparr>gs_commitId := gs_commitId st + 1\<rparr>"
      have 1: "git_line st l = push_commit st0 c"
        unfolding git_line_def Let_def c_def ty_def st0_def
        by (simp only: ns if_False Some option.case f if_False)
      have 2: "gc_branch c = gs_currentBranch st" by (simp add: c_def)
      have 3: "gs_commits st0 = gs_commits st" "gs_branches st0 = gs_branches st"
        "gs_currentBranch st0 = gs_currentBranch st" by (simp_all add: st0_def)
      show ?thesis by (rule commit[OF 1 2 3 mc])
    qed
  next
    case nc: None
    show ?thesis
    proof (cases "js_match branch_re 1 (trim l)")
      case (Some m)
      define st1 where "st1 = st\<lparr>gs_branches := map_set (gs_branches st) (capture m 1)
                       \<lparr>gb_name = capture m 1, gb_commits = [],
                        gb_parentBranch = Some (gs_currentBranch st)\<rparr>,
                     gs_currentBranch := capture m 1\<rparr>"
      have 1: "git_line st l = Inr st1"
        unfolding git_line_def Let_def st1_def
        by (simp only: ns if_False nc Some option.case)
      have 2: "gs_commits st1 = gs_commits st" by (simp add: st1_def)
      have 3: "switches_branch l" "\<not> makes_commit l"
        using ns nc Some by (simp_all add: makes_commit_def switches_branch_def)
      show ?thesis by (rule switch[OF 1 2 3])
    next
      case nb: None
      show ?thesis
      proof (cases "js_match checkout_re 1 (trim l)")
        case (Some m)
        define st1 where "st1 = st\<lparr>gs_currentBranch := capture m 1\<rparr>"
        have 1: "git_line st l = Inr st1"
          unfolding git_line_def Let_def st1_def
          by (simp only: ns if_False nc nb Some option.case)
        have 2: "gs_commits st1 = gs_commits st" by (simp add: st1_def)
        have 3: "switches_branch l" "\<not> makes_commit l"
          using ns nc nb Some by (simp_all add: makes_commit_def switches_branch_def)
        show ?thesis by (rule switch[OF 1 2 3])
      next
        case nk: None
        show ?thesis
        proof (cases "js_match merge_re 2 (trim l)")
          case (Some m)
          define c where "c = \<lparr>gc_id = ''merge_'' @ show_nat (gs_commitId st),
              gc_tag = or_null (m ! 2), gc_type = ''MERGE'', gc_branch = gs_currentBranch st,
              gc_mergeFrom = Some (capture m 1)\<rparr>"
          define st0 where "st0 = st\<lparr>gs_commitId := gs_commitId st + 1\<rparr>"
          have 1: "git_line st l = push_commit st0 c"
            unfolding git_line_def Let_def c_def st0_def
            by (simp only: ns if_False nc nb nk Some option.case)
          have 2: "gc_branch c = gs_currentBranch st" by (simp add: c_def)
          have 3: "gs_commits st0 = gs_commits st" "gs_branches st0 = gs_branches st"
            "gs_currentBranch st0 = gs_currentBranch st" by (simp_all add: st0_def)
          have mc: "makes_commit l" "\<not> switches_branch l"
            using ns nc nb nk Some by (simp_all add: makes_commit_def switches_branch_def)
          show ?thesis by (rule commit[OF 1 2 3 mc])
        next
          case None
          have 1: "git_line st l = Inr st"
            unfolding git_line_def Let_def
            by (simp only: ns if_False nc nb nk None option.case)
          have "\<not> makes_commit l" "\<not> switches_branch l"
            using ns nc nb nk None
            by (simp_all add: makes_commit_def switches_branch_def)
          with 1 have "git_line st l = Inr st" "\<not> makes_commit l" "\<not> switches_branch l"
            by simp_all
          then show ?thesis by (rule skip)
        qed
      qed
    qed
  qed
qed

lemma git_line_commits:
  assumes "git_line st l = Inr st'"
  shows "\<exists>cs. gs_commits st' = gs_commits st @ cs
           \<and> length cs = (if makes_commit l then 1 else 0)
           \<and> (\<forall>c\<in>set cs. gc_branch c = gs_currentBranch st)"
proof (cases rule: git_line_cases[of st l])
  case skip
  with assms show ?thesis by simp
next
  case (commit c st0)
  with assms have "push_commit st0 c = Inr st'" by simp
  from push_commit_commits[OF this] commit show ?thesis by simp
next
  case (switch st1)
  with assms show ?thesis by simp
qed

lemma git_line_current:
  assumes "\<not> switches_branch l" "git_line st l = Inr st'"
  shows "gs_currentBranch st' = gs_currentBranch st"
proof (cases rule: git_line_cases[of st l])
  case skip
  with assms show ?thesis by simp
next
  case (commit c st0)
  with assms have "push_commit st0 c = Inr st'" by simp
  from push_commit_commits[OF this] commit show ?thesis by simp
next
  case (switch st1)
  with assms show ?thesis by simp
qed

lemma push_commit_on_main:
  assumes "main_first st" "gs_currentBranch st = ''main''"
  shows "\<exists>st'. push_commit st c = Inr st'"
  using assms by (auto simp: main_first_def push_commit_def map_get_def)

lemma git_line_on_main:
  assumes "main_first st" "gs_currentBranch st = ''main''"
  shows "\<exists>st'. git_line st l = Inr st'"
proof -
  have upd: "\<And>n. main_first (st\<lparr>gs_commitId := n\<rparr>)"
      "\<And>n. gs_currentBranch (st\<lparr>gs_commitId := n\<rparr>) = ''main''"
    using assms by (simp_all add: main_first_def)
  show ?thesis
    using push_commit_on_main[OF assms] push_commit_on_main[OF upd]
    by (auto simp: git_line_def Let_def split: option.splits)
qed

lemma git_lines_append:
  "git_lines st (a @ b) =
     (case git_lines st a of Inl e \<Rightarrow> Inl e | Inr st1 \<Rightarrow> git_lines st1 b)"
  by (induction a arbitrary: st) (auto split: sum.splits)

lemma git_lines_commits:
  "git_lines st ls = Inr st' \<Longrightarrow>
     \<exists>cs. gs_commits st' = gs_commits st @ cs \<and> length cs = length (filter makes_commit ls)"
proof (induction ls arbitrary: st)
  case Nil
  then show ?case by simp
next
  case (Cons l ls)
  from Cons.prems obtain st1 where 1: "git_line st l = Inr st1" and 2: "git_lines st1 ls = Inr st'"
    by (auto split: sum.splits)
  from git_line_commits[OF 1] obtain cs1 where
    cs1: "gs_commits st1 = gs_commits st @ cs1" "length cs1 = (if makes_commit l then 1 else 0)"
    by blast
  from Cons.IH[OF 2] obtain cs2 where
    cs2: "gs_commits st' = gs_commits st1 @ cs2" "length cs2 = length (filter makes_commit ls)"
    by blast
  show ?case
    by (rule exI[of _ "cs1 @ cs2"]) (simp add: cs1 cs2)
qed

lemma git_lines_before_switch:
  assumes "main_first st" "gs_currentBranch st = ''main''" "\<forall>l\<in>set pre. \<not> switches_branch l"
  shows "\<exists>st1 cs. git_lines st pre = Inr st1 \<and> main_first st1 \<and> gs_currentBranch st1 = ''main''
           \<and> gs_commits st1 = gs_commits st @ cs
           \<and> length cs = length (filter makes_commit pre)
           \<and> (\<forall>c\<in>set cs. gc_branch c = ''main'')"
  using assms
proof (induction pre arbitrary: st)
  case Nil
  then show ?case by simp
next
  case (Cons l pre)
  from git_line_on_main[OF Cons.prems(1,2)] obtain st1 where 1: "git_line st l = Inr st1"
    by blast
  have mf: "main_first st1" by (rule git_line_main_first[OF Cons.prems(1) 1])
  have cur: "gs_currentBranch st1 = ''main''"
    using git_line_current[OF _ 1] Cons.prems(2,3) by simp
  from git_line_commits[OF 1] Cons.prems(2) obtain cs1 where
    cs1: "gs_commits st1 = gs_commits st @ cs1" "length cs1 = (if makes_commit l then 1 else 0)"
      "\<forall>c\<in>set cs1. gc_branch c = ''main''"
    by auto
  from Cons.IH[OF mf cur] Cons.prems(3) obtain st2 cs2 where
    2: "git_lines st1 pre = Inr st2" "main_first st2" "gs_currentBranch st2 = ''main''"
      "gs_commits st2 = gs_commits st1 @ cs2" "length cs2 = length (filter makes_commit pre)"
      "\<forall>c\<in>set cs2. gc_branch c = ''main''"
    by auto
  show ?case
    apply (rule exI[of _ st2])
    apply (rule exI[of _ "cs1 @ cs2"])
    using 1 2 cs1 by auto
qed

lemma parseGitGraph_count:
  assumes "parseGitGraph s = Inr g"
  shows "length (gg_commits g) = length (filter makes_commit (split_nl (trim s)))"
proof -
  from assms obtain st where st: "git_lines git_init (split_nl (trim s)) = Inr st"
    and g: "gg_commits g = gs_commits st"
    by (auto simp: parseGitGraph_def split: sum.splits)
  from git_lines_commits[OF st] show ?thesis
    by (auto simp: g git_init_def)
qed

lemma parseGitGraph_before_switch:
  assumes p: "parseGitGraph s = Inr g"
    and l: "split_nl (trim s) = pre @ post"
    and pre: "\<forall>l\<in>set pre. \<not> switches_branch l"
    and i: "i < length (filter makes_commit pre)"
  shows "i < length (gg_commits g) \<and> gc_branch (gg_commits g ! i) = ''main''"
proof -
  from p obtain st where st: "git_lines git_init (pre @ post) = Inr st"
    and g: "gg_commits g = gs_commits st"
    by (auto simp: parseGitGraph_def l split: sum.splits)
  from git_lines_before_switch[OF main_first_init _ pre] obtain st1 cs where
    1: "git_lines git_init pre = Inr st1" "gs_commits st1 = cs"
      "length cs = length (filter makes_commit pre)" "\<forall>c\<in>set cs. gc_branch c = ''main''"
    by (auto simp: git_init_def)
  from st 1(1) have "git_lines st1 post = Inr st"
    by (simp add: git_lines_append)
  from git_lines_commits[OF this] obtain cs2 where "gs_commits st = cs @ cs2"
    using 1(2) by auto
  with i 1(3,4) show ?thesis
    by (auto simp: g nth_append)
qed

lemma parseGitGraph_no_switch_returns:
  assumes "\<forall>l\<in>set (split_nl (trim s)). \<not> switches_branch l"
  shows "\<exists>g. parseGitGraph s = Inr g"
proof -
  from git_lines_before_switch[OF main_first_init _ assms] obtain st1 where
    "git_lines git_init (split_nl (trim s)) = Inr st1"
    by (auto simp: git_init_def)
  then show ?thesis by (simp add: parseGitGraph_def)
qed

text \<open>
  Claim C10. Whenever the commit-graph parser returns a model, its branch list is not
  empty and starts with the branch named main; every commit or merge line adds one
  commit; and the commits of the lines that stand before the first branch or checkout
  directive all carry the branch main. On a text without such a directive, the empty
  text among them, the parser does return.
\<close>

theorem parseGitGraph_main:
  "(parseGitGraph s = Inr g \<longrightarrow>
      gg_branches g \<noteq> [] \<and> gb_name (hd (gg_branches g)) = ''main''
      \<and> length (gg_commits g) = length (filter makes_commit (split_nl (trim s))))
   \<and> (parseGitGraph s = Inr g \<and> split_nl (trim s) = pre @ post
        \<and> (\<forall>l\<in>set pre. \<not> switches_branch l) \<and> i < length (filter makes_commit pre)
      \<longrightarrow> i < length (gg_commits g) \<and> gc_branch (gg_commits g ! i) = ''main'')
   \<and> ((\<forall>l\<in>set (split_nl (trim s)). \<not> switches_branch l) \<longrightarrow> (\<exists>g'. parseGitGraph s = Inr g'))"
  using parseGitGraph_main_first[of s g] parseGitGraph_count[of s g]
    parseGitGraph_before_switch[of s g pre post i] parseGitGraph_no_switch_returns[of s]
  by blast

theorem parseGitGraph_main_witness:
  "parseGitGraph (''gitGraph'' @ [CHR 0x0A] @ ''commit'' @ [CHR 0x0A] @ ''merge ghost''
       @ [CHR 0x0A] @ ''branch dev'' @ [CHR 0x0A] @ ''commit'') =
     Inr \<lparr>gg_commits =
            [\<lparr>gc_id = ''c0'', gc_tag = None, gc_type = ''NORMAL'', gc_branch = ''main'',
              gc_mergeFrom = None\<rparr>,
             \<lparr>gc_id = ''merge_1'', gc_tag = None, gc_type = ''MERGE'', gc_branch = ''main'',
              gc_mergeFrom = Some ''ghost''\<rparr>,
             \<lparr>gc_id = ''c2'', gc_tag = None, gc_type = ''NORMAL'', gc_branch = ''dev'',
              gc_mergeFrom = None\<rparr>],
          gg_branches =
            [\<lparr>gb_name = ''main'', gb_commits = [''c0'', ''merge_1''], gb_parentBranch = None\<rparr>,
             \<lparr>gb_name = ''dev'', gb_commits = [''c2''], gb_parentBranch = Some ''main''\<rparr>]\<rparr>
   \<and> gc_branch (gg_commits \<lparr>gg_commits =
            [\<lparr>gc_id = ''c0'', gc_tag = None, gc_type = ''NORMAL'', gc_branch = ''main'',
              gc_mergeFrom = None\<rparr>,
             \<lparr>gc_id = ''merge_1'', gc_tag = None, gc_type = ''MERGE'', gc_branch = ''main'',
              gc_mergeFrom = Some ''ghost''\<rparr>,
             \<lparr>gc_id = ''c2'', gc_tag = None, gc_type = ''NORMAL'', gc_branch = ''dev'',
              gc_mergeFrom = None\<rparr>],
          gg_branches =
            [\<lparr>gb_name = ''main'', gb_commits = [''c0'', ''merge_1''], gb_parentBranch = None\<rparr>,
             \<lparr>gb_name = ''dev'', gb_commits = [''c2''], gb_parentBranch = Some ''main''\<rparr>]\<rparr> ! 1) = ''main''
   \<and> (\<exists>g'. parseGitGraph [] = Inr g')"
proof -
  define s where "s = ''gitGraph'' @ [CHR 0x0A] @ ''commit'' @ [CHR 0x0A] @ ''merge ghost''
       @ [CHR 0x0A] @ ''branch dev'' @ [CHR 0x0A] @ ''commit''"
  define g where "g = \<lparr>gg_commits =
            [\<lparr>gc_id = ''c0'', gc_tag = None, gc_type = ''NORMAL'', gc_branch = ''main'',
              gc_mergeFrom = None\<rparr>,
             \<lparr>gc_id = ''merge_1'', gc_tag = None, gc_type = ''MERGE'', gc_branch = ''main'',
              gc_mergeFrom = Some ''ghost''\<rparr>,
             \<lparr>gc_id = ''c2'', gc_tag = None, gc_type = ''NORMAL'', gc_branch = ''dev'',
              gc_mergeFrom = None\<rparr>],
          gg_branches =
            [\<lparr>gb_name = ''main'', gb_commits = [''c0'', ''merge_1''], gb_parentBranch = None\<rparr>,
             \<lparr>gb_name = ''dev'', gb_commits = [''c2''], gb_parentBranch = Some ''main''\<rparr>]\<rparr>"
  have p: "parseGitGraph s = Inr g"
    unfolding s_def g_def by code_simp
  have l: "split_nl (trim s) = [''gitGraph'', ''commit'', ''merge ghost''] @ [''branch dev'', ''commit'']"
    unfolding s_def by code_simp
  have pre: "\<forall>l\<in>set [''gitGraph'', ''commit'', ''merge ghost'']. \<not> switches_branch l"
    by code_simp
  have i: "1 < length (filter makes_commit [''gitGraph'', ''commit'', ''merge ghost''])"
    by code_simp
  have e: "\<forall>l\<in>set (split_nl (trim [])). \<not> switches_branch l"
    by code_simp
  have a: "gc_branch (gg_commits g ! 1) = ''main''"
    using parseGitGraph_main[of s g "[''gitGraph'', ''commit'', ''merge ghost'']"
        "[''branch dev'', ''commit'']" 1] p l pre i by blast
  have b: "\<exists>g'. parseGitGraph [] = Inr g'"
    using parseGitGraph_main[of "[]" g "[]" "[]" 0] e by blast
  from p a b show ?thesis unfolding s_def g_def by blast
qed

section \<open>Commit graphs: directives that name an unknown branch\<close>

lemma parseGitGraph_merge_ghost:
  "parseGitGraph (''gitGraph'' @ [CHR 0x0A] @ ''merge ghost'') =
     Inr \<lparr>gg_commits = [\<lparr>gc_id = ''merge_0'', gc_tag = None, gc_type = ''MERGE'',
                           gc_branch = ''main'', gc_mergeFrom = Some ''ghost''\<rparr>],
          gg_branches = [\<lparr>gb_name = ''main'', gb_commits = [''merge_0''],
                           gb_parentBranch = None\<rparr>]\<rparr>"
  by code_simp

lemma generateGitGraphXML_merge_ghost:
  "generateGitGraphXML
     \<lparr>gg_commits = [\<lparr>gc_id = ''merge_0'', gc_tag = None, gc_type = ''MERGE'',
                      gc_branch = ''main'', gc_mergeFrom = Some ''ghost''\<rparr>],
      gg_branches = [\<lparr>gb_name = ''main'', gb_commits = [''merge_0''],
                      gb_parentBranch = None\<rparr>]\<rparr> =
     [vertex_cell ''branch_main'' (Some ''main'') ''1'', vertex_cell ''merge_0'' (Some []) ''1'']"
  by code_simp

text \<open>
  Claim C1. The commit-graph parser does not return on every text: after a checkout of
  a branch that no branch directive created, the next commit reads the commit list of a
  missing map entry, and the parser throws.
\<close>

theorem parseGitGraph_checkout_ghost_throws:
  "parseGitGraph (''gitGraph'' @ [CHR 0x0A] @ ''checkout ghost'' @ [CHR 0x0A] @ ''commit'')
     = Inl TypeError"
  by code_simp

section \<open>Decimal numerals\<close>

declare show_nat.simps [simp del]

lemma digit_char_val: "d < 10 \<Longrightarrow> (of_char (digit_char d) :: nat) - 48 = d"
  by (simp add: digit_char_def)

lemma nat_of_digits_snoc: "nat_of_digits (ds @ [c]) = 10 * nat_of_digits ds + (of_char c - 48)"
  by (simp add: nat_of_digits_def)

lemma nat_of_digits_show_nat: "nat_of_digits (show_nat n) = n"
proof (induction n rule: show_nat.induct)
  case (1 n)
  show ?case
  proof (cases "n < 10")
    case True
    then show ?thesis
      by (subst show_nat.simps) (simp add: nat_of_digits_def digit_char_val)
  next
    case False
    then have "nat_of_digits (show_nat n) = 10 * nat_of_digits (show_nat (n div 10)) + n mod 10"
      by (subst show_nat.simps) (simp add: nat_of_digits_snoc digit_char_val)
    with 1 False show ?thesis by simp
  qed
qed

lemma show_nat_inj: "show_nat a = show_nat b \<Longrightarrow> a = b"
  by (metis nat_of_digits_show_nat)

lemma node_id_inj: "node_id a = node_id b \<Longrightarrow> a = b"
  by (simp add: node_id_def show_nat_inj)

section \<open>Mindmaps: the parent of a node\<close>

lemma pop_stack_map:
  "pop_stack l (map (\<lambda>j. (f j, L ! j)) C) = map (\<lambda>j. (f j, L ! j)) (dropWhile (\<lambda>j. L ! j \<ge> l) C)"
  by (induction C) simp_all

lemma stack_indices_bound: "j \<in> set (stack_indices Lr) \<Longrightarrow> j < length Lr"
proof (induction Lr arbitrary: j)
  case Nil
  then show ?case by simp
next
  case (Cons l Lr)
  then show ?case
    using set_dropWhileD by fastforce
qed

lemma find_dropWhile_disjoint:
  assumes "\<And>x. Q x \<Longrightarrow> \<not> P x"
  shows "find P (dropWhile Q xs) = find P xs"
  using assms by (induction xs) auto

lemma stack_indices_find:
  "find (\<lambda>j. rev Lr ! j < l) (stack_indices Lr) = find (\<lambda>j. rev Lr ! j < l) (rev [0..<length Lr])"
proof (induction Lr arbitrary: l)
  case Nil
  then show ?case by simp
next
  case (Cons x Lr)
  let ?k = "length Lr"
  have old: "\<And>j. j < ?k \<Longrightarrow> rev (x # Lr) ! j = rev Lr ! j"
    by (simp add: nth_append)
  have new: "(rev Lr @ [x]) ! ?k = x"
    by (simp add: nth_append)
  show ?case
  proof (cases "x < l")
    case True
    then show ?thesis by (simp add: new)
  next
    case False
    have "find (\<lambda>j. rev (x # Lr) ! j < l) (stack_indices (x # Lr))
        = find (\<lambda>j. rev (x # Lr) ! j < l) (dropWhile (\<lambda>j. rev Lr ! j \<ge> x) (stack_indices Lr))"
      using False by (simp add: new)
    also have "\<dots> = find (\<lambda>j. rev Lr ! j < l) (dropWhile (\<lambda>j. rev Lr ! j \<ge> x) (stack_indices Lr))"
    proof (rule find_cong[OF refl])
      fix j assume "j \<in> set (dropWhile (\<lambda>j. rev Lr ! j \<ge> x) (stack_indices Lr))"
      then have "j \<in> set (stack_indices Lr)" by (rule set_dropWhileD)
      then have "j < ?k" by (rule stack_indices_bound)
      then show "(rev (x # Lr) ! j < l) = (rev Lr ! j < l)" by (simp only: old)
    qed
    also have "\<dots> = find (\<lambda>j. rev Lr ! j < l) (stack_indices Lr)"
      by (rule find_dropWhile_disjoint) (use False in auto)
    also have "\<dots> = find (\<lambda>j. rev Lr ! j < l) (rev [0..<?k])"
      by (rule Cons.IH)
    also have "\<dots> = find (\<lambda>j. rev (x # Lr) ! j < l) (rev [0..<?k])"
    proof (rule find_cong[OF refl])
      fix j assume "j \<in> set (rev [0..<?k])"
      then have "j < ?k" by simp
      then show "(rev Lr ! j < l) = (rev (x # Lr) ! j < l)" by (simp only: old)
    qed
    also have "\<dots> = find (\<lambda>j. rev (x # Lr) ! j < l) (rev [0..<length (x # Lr)])"
      using False by (simp add: new)
    finally show ?thesis .
  qed
qed

lemma nearest_smaller_append:
  assumes "i < length L"
  shows "nearest_smaller (L @ M) i = nearest_smaller L i"
  unfolding nearest_smaller_def
proof (rule find_cong[OF refl])
  fix j assume "j \<in> set (rev [0..<i])"
  then have "j < length L" using assms by simp
  with assms show "((L @ M) ! j < (L @ M) ! i) = (L ! j < L ! i)"
    by (simp add: nth_append)
qed

lemma nearest_smaller_last:
  "nearest_smaller (L @ [l]) (length L) = find (\<lambda>j. L ! j < l) (rev [0..<length L])"
  unfolding nearest_smaller_def
proof (rule find_cong[OF refl])
  fix j assume "j \<in> set (rev [0..<length L])"
  then have "j < length L" by simp
  then show "((L @ [l]) ! j < (L @ [l]) ! length L) = (L ! j < l)"
    by (simp add: nth_append)
qed

lemma add_child_fields:
  "length (add_child p c ns) = length ns"
  "i < length ns \<Longrightarrow> mn_id (add_child p c ns ! i) = mn_id (ns ! i)"
  "i < length ns \<Longrightarrow> mn_level (add_child p c ns ! i) = mn_level (ns ! i)"
  "i < length ns \<Longrightarrow> mn_parentId (add_child p c ns ! i) = mn_parentId (ns ! i)"
  by (simp_all add: add_child_def)

lemma popped_parent:
  "(case pop_stack l (map (\<lambda>j. (node_id j, L ! j)) (stack_indices (rev L))) of
      [] \<Rightarrow> None | parent # _ \<Rightarrow> Some (fst parent))
   = map_option node_id (find (\<lambda>j. L ! j < l) (rev [0..<length L]))"
proof -
  define C where "C = stack_indices (rev L)"
  define D where "D = dropWhile (\<lambda>j. L ! j \<ge> l) C"
  have d: "D = dropWhile (Not \<circ> (\<lambda>j. L ! j < l)) C"
    unfolding D_def
    by (rule arg_cong[where f = "\<lambda>P. dropWhile P C"]) (auto simp: fun_eq_iff)
  have 1: "find (\<lambda>j. L ! j < l) C = (case D of [] \<Rightarrow> None | j # _ \<Rightarrow> Some j)"
    unfolding d by (rule find_dropWhile)
  have 2: "find (\<lambda>j. L ! j < l) C = find (\<lambda>j. L ! j < l) (rev [0..<length L])"
    unfolding C_def using stack_indices_find[of "rev L" l] by simp
  have 3: "(case map (\<lambda>j. (node_id j, L ! j)) D of [] \<Rightarrow> None | parent # _ \<Rightarrow> Some (fst parent))
      = map_option node_id (case D of [] \<Rightarrow> None | j # _ \<Rightarrow> Some j)"
    by (cases D) simp_all
  have "(case pop_stack l (map (\<lambda>j. (node_id j, L ! j)) C) of
      [] \<Rightarrow> None | parent # _ \<Rightarrow> Some (fst parent))
      = map_option node_id (find (\<lambda>j. L ! j < l) (rev [0..<length L]))"
    unfolding pop_stack_map D_def[symmetric] 3 1[symmetric] 2 ..
  then show ?thesis unfolding C_def .
qed

lemma popped_stack:
  "(node_id (length L), l) # pop_stack l (map (\<lambda>j. (node_id j, L ! j)) (stack_indices (rev L)))
   = map (\<lambda>j. (node_id j, (L @ [l]) ! j)) (stack_indices (rev (L @ [l])))"
proof -
  let ?D = "dropWhile (\<lambda>j. L ! j \<ge> l) (stack_indices (rev L))"
  have "map (\<lambda>j. (node_id j, (L @ [l]) ! j)) ?D = map (\<lambda>j. (node_id j, L ! j)) ?D"
  proof (rule map_cong[OF refl])
    fix j assume "j \<in> set ?D"
    then have "j \<in> set (stack_indices (rev L))" by (rule set_dropWhileD)
    then have "j < length L" using stack_indices_bound[of j "rev L"] by simp
    then show "(node_id j, (L @ [l]) ! j) = (node_id j, L ! j)"
      by (simp add: nth_append)
  qed
  then show ?thesis
    unfolding pop_stack_map by simp
qed

lemma mind_line_parts:
  assumes ns: "\<not> mind_skipped line"
  shows "ms_nodeId (mind_line st line) = ms_nodeId st + 1"
    and "ms_stack (mind_line st line) =
           (''node'' @ show_nat (ms_nodeId st), indent_of line div 2)
             # pop_stack (indent_of line div 2) (ms_stack st)"
    and "\<exists>N0 node. ms_nodes (mind_line st line) = N0 @ [node]
           \<and> length N0 = length (ms_nodes st)
           \<and> (\<forall>i<length (ms_nodes st). mn_id (N0 ! i) = mn_id (ms_nodes st ! i)
                 \<and> mn_level (N0 ! i) = mn_level (ms_nodes st ! i)
                 \<and> mn_parentId (N0 ! i) = mn_parentId (ms_nodes st ! i))
           \<and> mn_id node = ''node'' @ show_nat (ms_nodeId st)
           \<and> mn_level node = indent_of line div 2
           \<and> mn_parentId node =
               (case pop_stack (indent_of line div 2) (ms_stack st) of
                  [] \<Rightarrow> None | parent # _ \<Rightarrow> Some (fst parent))"
    and "ms_top (mind_line st line) =
           (case pop_stack (indent_of line div 2) (ms_stack st) of
              [] \<Rightarrow> ms_top st @ [''node'' @ show_nat (ms_nodeId st)] | _ \<Rightarrow> ms_top st)"
proof -
  show "ms_nodeId (mind_line st line) = ms_nodeId st + 1"
    using ns by (simp add: mind_line_def Let_def case_prod_beta)
  show "ms_stack (mind_line st line) =
           (''node'' @ show_nat (ms_nodeId st), indent_of line div 2)
             # pop_stack (indent_of line div 2) (ms_stack st)"
    using ns by (simp add: mind_line_def Let_def case_prod_beta)
  show "ms_top (mind_line st line) =
           (case pop_stack (indent_of line div 2) (ms_stack st) of
              [] \<Rightarrow> ms_top st @ [''node'' @ show_nat (ms_nodeId st)] | _ \<Rightarrow> ms_top st)"
    using ns by (simp add: mind_line_def Let_def case_prod_beta split: list.splits)
  show "\<exists>N0 node. ms_nodes (mind_line st line) = N0 @ [node]
           \<and> length N0 = length (ms_nodes st)
           \<and> (\<forall>i<length (ms_nodes st). mn_id (N0 ! i) = mn_id (ms_nodes st ! i)
                 \<and> mn_level (N0 ! i) = mn_level (ms_nodes st ! i)
                 \<and> mn_parentId (N0 ! i) = mn_parentId (ms_nodes st ! i))
           \<and> mn_id node = ''node'' @ show_nat (ms_nodeId st)
           \<and> mn_level node = indent_of line div 2
           \<and> mn_parentId node =
               (case pop_stack (indent_of line div 2) (ms_stack st) of
                  [] \<Rightarrow> None | parent # _ \<Rightarrow> Some (fst parent))"
  proof (cases "pop_stack (indent_of line div 2) (ms_stack st)")
    case Nil
    show ?thesis
      apply (rule exI[of _ "ms_nodes st"])
      using ns Nil by (simp add: mind_line_def Let_def case_prod_beta)
  next
    case (Cons p rest)
    show ?thesis
      apply (rule exI[of _ "add_child (fst p) (''node'' @ show_nat (ms_nodeId st)) (ms_nodes st)"])
      using ns Cons by (simp add: mind_line_def Let_def case_prod_beta add_child_fields)
  qed
qed

lemma mind_line_step:
  assumes inv: "mind_inv L st" and ns: "\<not> mind_skipped line"
  shows "mind_inv (L @ [indent_of line div 2]) (mind_line st line)"
proof -
  define l where "l = indent_of line div 2"
  define k where "k = length L"
  from inv have nid: "ms_nodeId st = k" and len: "length (ms_nodes st) = k"
    and old: "\<And>i. i < k \<Longrightarrow> mn_id (ms_nodes st ! i) = node_id i \<and> mn_level (ms_nodes st ! i) = L ! i
            \<and> mn_parentId (ms_nodes st ! i) = map_option node_id (nearest_smaller L i)"
    and stk: "ms_stack st = map (\<lambda>j. (node_id j, L ! j)) (stack_indices (rev L))"
    and top: "ms_top st = map node_id (filter (\<lambda>i. nearest_smaller L i = None) [0..<k])"
    unfolding mind_inv_def k_def by auto
  have par: "(case pop_stack l (ms_stack st) of [] \<Rightarrow> None | parent # _ \<Rightarrow> Some (fst parent))
      = map_option node_id (nearest_smaller (L @ [l]) k)"
    unfolding stk k_def nearest_smaller_last by (rule popped_parent)
  have nil_iff: "pop_stack l (ms_stack st) = [] \<longleftrightarrow> nearest_smaller (L @ [l]) k = None"
    using par by (cases "pop_stack l (ms_stack st)"; cases "nearest_smaller (L @ [l]) k") auto
  note parts = mind_line_parts[OF ns, of st, folded l_def, unfolded nid, folded node_id_def]
  from parts(3) obtain N0 node where
    N: "ms_nodes (mind_line st line) = N0 @ [node]" "length N0 = k"
      "\<And>i. i < k \<Longrightarrow> mn_id (N0 ! i) = mn_id (ms_nodes st ! i)
                 \<and> mn_level (N0 ! i) = mn_level (ms_nodes st ! i)
                 \<and> mn_parentId (N0 ! i) = mn_parentId (ms_nodes st ! i)"
      "mn_id node = node_id k" "mn_level node = l"
      "mn_parentId node = map_option node_id (nearest_smaller (L @ [l]) k)"
    unfolding len par by blast
  have a: "ms_nodeId (mind_line st line) = length (L @ [l])"
    using parts(1) by (simp add: k_def)
  have b: "length (ms_nodes (mind_line st line)) = length (L @ [l])"
    using N(1,2) by (simp add: k_def)
  have c: "mn_id (ms_nodes (mind_line st line) ! i) = node_id i
        \<and> mn_level (ms_nodes (mind_line st line) ! i) = (L @ [l]) ! i
        \<and> mn_parentId (ms_nodes (mind_line st line) ! i)
            = map_option node_id (nearest_smaller (L @ [l]) i)"
    if "i < length (L @ [l])" for i
  proof (cases "i < k")
    case True
    then have "ms_nodes (mind_line st line) ! i = N0 ! i"
      using N(1,2) by (simp add: nth_append)
    moreover have "nearest_smaller (L @ [l]) i = nearest_smaller L i"
      using True by (simp add: nearest_smaller_append k_def)
    ultimately show ?thesis
      using N(3)[OF True] old[OF True] True by (simp add: nth_append k_def)
  next
    case False
    with that have i: "i = k" by (simp add: k_def)
    then have "ms_nodes (mind_line st line) ! i = node"
      using N(1,2) by (simp add: nth_append)
    then show ?thesis
      using N(4,5,6) i by (simp add: nth_append k_def)
  qed
  have d: "ms_stack (mind_line st line)
      = map (\<lambda>j. (node_id j, (L @ [l]) ! j)) (stack_indices (rev (L @ [l])))"
    unfolding parts(2) stk k_def by (rule popped_stack)
  have f: "filter (\<lambda>i. nearest_smaller (L @ [l]) i = None) [0..<k]
      = filter (\<lambda>i. nearest_smaller L i = None) [0..<k]"
    by (rule filter_cong[OF refl]) (simp add: nearest_smaller_append k_def)
  have e: "ms_top (mind_line st line)
      = map node_id (filter (\<lambda>i. nearest_smaller (L @ [l]) i = None) [0..<length (L @ [l])])"
  proof (cases "pop_stack l (ms_stack st)")
    case Nil
    then have "nearest_smaller (L @ [l]) k = None" using nil_iff by simp
    then show ?thesis
      unfolding parts(4) Nil top using f by (simp add: k_def)
  next
    case (Cons p rest)
    then have "nearest_smaller (L @ [l]) k \<noteq> None" using nil_iff by simp
    then show ?thesis
      unfolding parts(4) Cons top using f by (simp add: k_def)
  qed
  show ?thesis
    unfolding mind_inv_def l_def[symmetric]
    using a b c d e by blast
qed

lemma mind_inv_init: "mind_inv [] mind_init"
  by (simp add: mind_inv_def mind_init_def)

lemma mind_fold_inv:
  "mind_inv (map (\<lambda>l. indent_of l div 2) (filter (\<lambda>l. \<not> mind_skipped l) ls))
     (foldl mind_line mind_init ls)"
proof (induction ls rule: rev_induct)
  case Nil
  then show ?case by (simp add: mind_inv_init)
next
  case (snoc x xs)
  show ?case
  proof (cases "mind_skipped x")
    case True
    then show ?thesis using snoc by (simp add: mind_line_def)
  next
    case False
    then show ?thesis using mind_line_step[OF snoc False] by simp
  qed
qed

lemma find_downwards:
  "find P (rev [0..<k]) = Some j \<longleftrightarrow> j < k \<and> P j \<and> (\<forall>i. j < i \<and> i < k \<longrightarrow> \<not> P i)"
proof (induction k)
  case 0
  then show ?case by simp
next
  case (Suc k)
  show ?case
  proof (cases "P k")
    case True
    then show ?thesis
      by (auto simp: less_Suc_eq)
  next
    case False
    then show ?thesis
      using Suc by (auto simp: less_Suc_eq)
  qed
qed

lemma nearest_smaller_Some:
  "nearest_smaller L k = Some j \<longleftrightarrow>
     j < k \<and> L ! j < L ! k \<and> (\<forall>i. j < i \<and> i < k \<longrightarrow> L ! k \<le> L ! i)"
  unfolding nearest_smaller_def find_downwards by (simp add: not_less)

lemma nearest_smaller_None:
  "nearest_smaller L k = None \<longleftrightarrow> (\<forall>j<k. L ! k \<le> L ! j)"
  unfolding nearest_smaller_def find_None_iff by (auto simp: not_less) (meson leD)

lemma parseMindmap_inv: "mind_inv (line_levels s) (foldl mind_line mind_init (split_nl (trim s)))"
  unfolding line_levels_def by (rule mind_fold_inv)

lemma parseMindmap_nodes:
  "mm_nodes (parseMindmap s) = ms_nodes (foldl mind_line mind_init (split_nl (trim s)))"
  by (simp add: parseMindmap_def Let_def)

lemma parseMindmap_root:
  "mm_root (parseMindmap s) = (if line_levels s = [] then None else Some (node_id 0))"
proof -
  define L where "L = line_levels s"
  have top: "ms_top (foldl mind_line mind_init (split_nl (trim s)))
      = map node_id (filter (\<lambda>i. nearest_smaller L i = None) [0..<length L])"
    using parseMindmap_inv[of s] unfolding mind_inv_def L_def by blast
  show ?thesis
  proof (cases "L = []")
    case True
    then show ?thesis
      unfolding L_def[symmetric] by (simp add: parseMindmap_def Let_def top)
  next
    case False
    then have "[0..<length L] = 0 # [1..<length L]"
      by (simp add: upt_conv_Cons)
    moreover have "nearest_smaller L 0 = None"
      by (simp add: nearest_smaller_def)
    ultimately show ?thesis
      unfolding L_def[symmetric] using False by (simp add: parseMindmap_def Let_def top)
  qed
qed

lemma parseMindmap_parent:
  assumes "k < length (line_levels s)"
  shows "mn_id (mm_nodes (parseMindmap s) ! k) = node_id k"
    and "mn_level (mm_nodes (parseMindmap s) ! k) = line_levels s ! k"
    and "mn_parentId (mm_nodes (parseMindmap s) ! k)
          = map_option node_id (nearest_smaller (line_levels s) k)"
  using parseMindmap_inv[of s] assms unfolding mind_inv_def parseMindmap_nodes by blast+

lemma parseMindmap_length: "length (mm_nodes (parseMindmap s)) = length (line_levels s)"
  using parseMindmap_inv[of s] unfolding mind_inv_def parseMindmap_nodes by blast

lemma parseMindmap_acyclic:
  "wf {(p, c). \<exists>n\<in>set (mm_nodes (parseMindmap s)). mn_id n = c \<and> mn_parentId n = Some p}"
proof -
  have inj: "inj node_id" by (rule injI) (rule node_id_inj)
  have f: "\<And>k. the_inv node_id (node_id k) = k"
    by (rule the_inv_f_f[OF inj])
  have sub: "{(p, c). \<exists>n\<in>set (mm_nodes (parseMindmap s)). mn_id n = c \<and> mn_parentId n = Some p}
      \<subseteq> inv_image less_than (the_inv node_id)"
  proof (clarify)
    fix n p assume n: "n \<in> set (mm_nodes (parseMindmap s))" "mn_parentId n = Some p"
    then obtain k where k: "k < length (line_levels s)" "n = mm_nodes (parseMindmap s) ! k"
      by (auto simp: in_set_conv_nth parseMindmap_length)
    from parseMindmap_parent[OF k(1)] k(2) n(2)
    obtain j where "nearest_smaller (line_levels s) k = Some j" "p = node_id j" "mn_id n = node_id k"
      by auto
    then have "j < k" "p = node_id j" "mn_id n = node_id k"
      by (simp_all add: nearest_smaller_Some)
    then show "(p, mn_id n) \<in> inv_image less_than (the_inv node_id)"
      by (simp add: f)
  qed
  have "wf (inv_image less_than (the_inv node_id))"
    by (rule wf_inv_image[OF wf_less_than])
  then show ?thesis
    using sub by (rule wf_subset)
qed

text \<open>
  Claim C5, as amended. The nodes of a parsed mindmap are the lines that are not
  skipped, in order, with the ids node0, node1, \<dots> (pairwise different) and the level
  \<open>indent div 2\<close>, where indent counts the leading white-space characters. A node has no
  parent exactly when no earlier node has a strictly smaller level; otherwise its one
  parent is the nearest earlier node with a strictly smaller level. A parent stands
  before its child, so the parent relation is well-founded; the model's root is the
  first node.
\<close>

theorem parseMindmap_forest:
  "length (mm_nodes (parseMindmap s)) = length (line_levels s)
   \<and> (\<forall>k<length (line_levels s).
         mn_id (mm_nodes (parseMindmap s) ! k) = node_id k
       \<and> mn_level (mm_nodes (parseMindmap s) ! k) = line_levels s ! k
       \<and> (mn_parentId (mm_nodes (parseMindmap s) ! k) = None
            \<longleftrightarrow> (\<forall>j<k. line_levels s ! k \<le> line_levels s ! j))
       \<and> (\<forall>p. mn_parentId (mm_nodes (parseMindmap s) ! k) = Some p
            \<longleftrightarrow> (\<exists>j<k. p = node_id j \<and> line_levels s ! j < line_levels s ! k
                  \<and> (\<forall>i. j < i \<and> i < k \<longrightarrow> line_levels s ! k \<le> line_levels s ! i))))
   \<and> (\<forall>a b. node_id a = node_id b \<longrightarrow> a = b)
   \<and> wf {(p, c). \<exists>n\<in>set (mm_nodes (parseMindmap s)). mn_id n = c \<and> mn_parentId n = Some p}
   \<and> mm_root (parseMindmap s) = (if line_levels s = [] then None else Some (node_id 0))"
proof (intro conjI allI impI)
  show "length (mm_nodes (parseMindmap s)) = length (line_levels s)"
    by (rule parseMindmap_length)
next
  fix k assume k: "k < length (line_levels s)"
  show "mn_id (mm_nodes (parseMindmap s) ! k) = node_id k"
    by (rule parseMindmap_parent(1)[OF k])
  show "mn_level (mm_nodes (parseMindmap s) ! k) = line_levels s ! k"
    by (rule parseMindmap_parent(2)[OF k])
  show "mn_parentId (mm_nodes (parseMindmap s) ! k) = None
      \<longleftrightarrow> (\<forall>j<k. line_levels s ! k \<le> line_levels s ! j)"
    unfolding parseMindmap_parent(3)[OF k] by (simp add: nearest_smaller_None)
  fix p
  show "mn_parentId (mm_nodes (parseMindmap s) ! k) = Some p
      \<longleftrightarrow> (\<exists>j<k. p = node_id j \<and> line_levels s ! j < line_levels s ! k
            \<and> (\<forall>i. j < i \<and> i < k \<longrightarrow> line_levels s ! k \<le> line_levels s ! i))"
    unfolding parseMindmap_parent(3)[OF k]
    by (cases "nearest_smaller (line_levels s) k")
       (auto simp: nearest_smaller_Some nearest_smaller_None dest: leD)
next
  fix a b assume "node_id a = node_id b"
  then show "a = b" by (rule node_id_inj)
next
  show "wf {(p, c). \<exists>n\<in>set (mm_nodes (parseMindmap s)). mn_id n = c \<and> mn_parentId n = Some p}"
    by (rule parseMindmap_acyclic)
next
  show "mm_root (parseMindmap s) = (if line_levels s = [] then None else Some (node_id 0))"
    by (rule parseMindmap_root)
qed

theorem parseMindmap_forest_witness:
  "length (mm_nodes (parseMindmap (''mindmap'' @ [CHR 0x0A] @ ''Root'' @ [CHR 0x0A] @ ''  Child1''
      @ [CHR 0x0A] @ ''  Child2''))) = 3
   \<and> mn_parentId (mm_nodes (parseMindmap (''mindmap'' @ [CHR 0x0A] @ ''Root'' @ [CHR 0x0A] @ ''  Child1''
      @ [CHR 0x0A] @ ''  Child2'')) ! 2) = Some ''node0''
   \<and> mm_root (parseMindmap (''mindmap'' @ [CHR 0x0A] @ ''Root'' @ [CHR 0x0A] @ ''  Child1''
      @ [CHR 0x0A] @ ''  Child2'')) = Some ''node0''"
proof -
  define s where "s = ''mindmap'' @ [CHR 0x0A] @ ''Root'' @ [CHR 0x0A] @ ''  Child1''
      @ [CHR 0x0A] @ ''  Child2''"
  have L: "line_levels s = [0, 1, 1]"
    unfolding s_def by code_simp
  have n0: "node_id 0 = ''node0''"
    by code_simp
  note t = parseMindmap_forest[of s, unfolded L]
  have a: "length (mm_nodes (parseMindmap s)) = 3"
    using t by simp
  have "\<exists>j<2. ''node0'' = node_id j \<and> [0, 1, 1 :: nat] ! j < [0, 1, 1] ! 2
      \<and> (\<forall>i. j < i \<and> i < 2 \<longrightarrow> [0, 1, 1 :: nat] ! 2 \<le> [0, 1, 1] ! i)"
    by (rule exI[of _ 0]) (auto simp: n0 less_Suc_eq numeral_2_eq_2)
  moreover have "mn_parentId (mm_nodes (parseMindmap s) ! 2) = Some ''node0''
      \<longleftrightarrow> (\<exists>j<2. ''node0'' = node_id j \<and> [0, 1, 1 :: nat] ! j < [0, 1, 1] ! 2
      \<and> (\<forall>i. j < i \<and> i < 2 \<longrightarrow> [0, 1, 1 :: nat] ! 2 \<le> [0, 1, 1] ! i))"
    using t by simp
  ultimately have b: "mn_parentId (mm_nodes (parseMindmap s) ! 2) = Some ''node0''"
    by blast
  have c: "mm_root (parseMindmap s) = Some ''node0''"
    using t by (simp add: n0)
  from a b c show ?thesis unfolding s_def by blast
qed

text \<open>
  The parser accepts several top-level lines: here the second node is not the root and
  has no parent, so the parsed structure is a forest and not a single-rooted tree.
\<close>

theorem parseMindmap_two_roots:
  "\<not> nonroot_has_parent (parseMindmap (''mindmap'' @ [CHR 0x0A] @ ''A'' @ [CHR 0x0A] @ ''B''))"
  by code_simp

section \<open>Mindmaps: the layout and the canvas\<close>














section \<open>Maps with insertion order\<close>

lemma map_has_map_set: "map_has (map_set m k v) k' \<longleftrightarrow> k' = k \<or> map_has m k'"
  by (induction m) (auto simp: map_has_def)

lemma map_set_named:
  assumes "\<forall>p\<in>set m. f (snd p) = fst p" "f v = k"
  shows "\<forall>p\<in>set (map_set m k v). f (snd p) = fst p"
  using assms by (induction m) auto



section \<open>Entity-relationship graphs: every relationship keeps its edge\<close>















section \<open>Class graphs: every relationship keeps its edge\<close>














section \<open>Sequence graphs: every message keeps its edge\<close>













section \<open>Flow graphs: every edge keeps its cell\<close>



section \<open>Relationships are conserved\<close>



section \<open>Mindmaps: a parent link without a connector\<close>






section \<open>Ids of the vertex cells\<close>

lemma map_set_keys_distinct:
  "distinct (map fst m) \<Longrightarrow> distinct (map fst (map_set m k v))"
proof (induction m)
  case Nil
  then show ?case by simp
next
  case (Cons p ps)
  have "set (map fst (map_set ps k v)) = insert k (set (map fst ps))"
    using map_has_map_set[of ps k v] by (auto simp: map_has_def)
  with Cons show ?case by auto
qed

lemma named_keys:
  assumes "\<forall>p\<in>set m. f (snd p) = fst p"
  shows "map f (map_values m) = map fst m"
  using assms by (induction m) (auto simp: map_values_def)

lemma flow_inv_map_set:
  assumes "flow_inv m" "fn_id v = k"
  shows "flow_inv (map_set m k v)"
  using assms map_set_named[of m fn_id v k] map_set_keys_distinct[of m k v]
  unfolding flow_inv_def by blast

lemma flow_inv_edge_node:
  assumes "flow_inv m"
  shows "flow_inv (if \<not> map_has m k then map_set m k (edge_node k sh) else m)"
  using assms flow_inv_map_set[of m "edge_node k sh" k] by (simp add: edge_node_def)

lemma flow_line_inv:
  assumes "flow_inv (fs_nodes st)"
  shows "flow_inv (fs_nodes (flow_line st l))"
proof (cases "js_match dir_re 1 (trim l)")
  case (Some m)
  then show ?thesis using assms by (simp add: flow_line_def)
next
  case d: None
  show ?thesis
  proof (cases "js_match edge_re 8 (trim l)")
    case (Some m)
    have "flow_inv (if \<not> map_has (if \<not> map_has (fs_nodes st) (capture m 1)
                         then map_set (fs_nodes st) (capture m 1) (edge_node (capture m 1) (m ! 2))
                         else fs_nodes st) (capture m 7)
             then map_set (if \<not> map_has (fs_nodes st) (capture m 1)
                         then map_set (fs_nodes st) (capture m 1) (edge_node (capture m 1) (m ! 2))
                         else fs_nodes st) (capture m 7) (edge_node (capture m 7) (m ! 8))
             else (if \<not> map_has (fs_nodes st) (capture m 1)
                         then map_set (fs_nodes st) (capture m 1) (edge_node (capture m 1) (m ! 2))
                         else fs_nodes st))"
      by (rule flow_inv_edge_node, rule flow_inv_edge_node, rule assms)
    then show ?thesis
      unfolding flow_line_def Let_def d Some option.case by simp
  next
    case e: None
    show ?thesis
    proof (cases "js_match node_re 2 (trim l)")
      case (Some m)
      have "flow_inv (map_set (fs_nodes st) (capture m 1)
              \<lparr>fn_id = capture m 1, fn_label = extractLabel (m ! 2), fn_shape = detectShape (m ! 2)\<rparr>)"
        by (rule flow_inv_map_set[OF assms]) simp
      then show ?thesis
        unfolding flow_line_def Let_def d e Some option.case by simp
    next
      case None
      then show ?thesis
        unfolding flow_line_def Let_def d e option.case using assms by simp
    qed
  qed
qed

lemma flow_lines_inv:
  "flow_inv (fs_nodes st) \<Longrightarrow> flow_inv (fs_nodes (foldl flow_line st ls))"
  by (induction ls arbitrary: st) (simp_all add: flow_line_inv)

lemma flowchart_vertex_ids:
  "vertex_ids (generateFlowchartXML parsed) = map fn_id (fc_nodes parsed)"
proof -
  have "vertex_ids (flow_edge_cells n es) = []" for n es
    by (induction es arbitrary: n) (simp_all add: vertex_ids_def edge_cell_def)
  then show ?thesis
    by (simp add: generateFlowchartXML_def vertex_ids_def vertex_cell_def comp_def)
qed

lemma parseFlowchart_ids_distinct:
  "distinct (map fn_id (fc_nodes (parseFlowchart s)))"
proof -
  define st where "st = foldl flow_line \<lparr>fs_nodes = [], fs_edges = [], fs_direction = ''TD''\<rparr>
                 (split_nl (trim s))"
  have "flow_inv (fs_nodes st)"
    unfolding st_def by (rule flow_lines_inv) (simp add: flow_inv_def)
  then have "distinct (map fn_id (map_values (fs_nodes st)))"
    using named_keys[of "fs_nodes st" fn_id] by (simp add: flow_inv_def)
  then show ?thesis
    by (simp add: parseFlowchart_def Let_def st_def)
qed

lemma mindmap_cells_vertex_ids:
  "vertex_ids (mindmap_cells positions cellId nodes)
     = filter (\<lambda>i. i \<in> set (map fst positions)) (map mn_id nodes)"
  by (induction nodes arbitrary: cellId) (simp_all add: vertex_ids_def vertex_cell_def edge_cell_def)

lemma parseMindmap_ids:
  "map mn_id (mm_nodes (parseMindmap s)) = map node_id [0..<length (line_levels s)]"
  by (rule nth_equalityI) (simp_all add: parseMindmap_length parseMindmap_parent(1))

lemma parseMindmap_ids_distinct:
  "distinct (map mn_id (mm_nodes (parseMindmap s)))"
  unfolding parseMindmap_ids
  by (simp add: distinct_map inj_on_def node_id_inj)

lemma mindmap_vertex_ids_distinct:
  "distinct (vertex_ids (generateMindmapXML (parseMindmap s)))"
proof (cases "truthy (mm_root (parseMindmap s))")
  case True
  then show ?thesis
    using parseMindmap_ids_distinct[of s]
    by (simp add: generateMindmapXML_def mindmap_cells_vertex_ids del: set_map)
next
  case False
  then show ?thesis
    by (simp add: generateMindmapXML_def vertex_ids_def)
qed

text \<open>
  Claim C7, as amended. For every input text, the vertex cells of the markup of a flow
  graph have pairwise different ids, and so have the vertex cells of the markup of a
  mindmap: the nodes of a flow graph are the values of a map keyed by their ids, and the
  ids of the nodes of a mindmap are numbered.
\<close>

theorem vertex_ids_distinct:
  "distinct (vertex_ids (generateFlowchartXML (parseFlowchart s)))
   \<and> distinct (vertex_ids (generateMindmapXML (parseMindmap t)))"
  unfolding flowchart_vertex_ids
  using parseFlowchart_ids_distinct[of s] mindmap_vertex_ids_distinct[of t] by blast

theorem vertex_ids_distinct_witness:
  "vertex_ids (generateFlowchartXML (parseFlowchart ''A --> B'')) = [''A'', ''B'']
   \<and> distinct (vertex_ids (generateFlowchartXML (parseFlowchart ''A --> B'')))
   \<and> distinct (vertex_ids (generateMindmapXML
         (parseMindmap (''mindmap'' @ [CHR 0x0A] @ ''A'' @ [CHR 0x0A] @ ''  B''))))"
proof -
  have "vertex_ids (generateFlowchartXML (parseFlowchart ''A --> B'')) = [''A'', ''B'']"
    by code_simp
  with vertex_ids_distinct[of "''A --> B''" "''mindmap'' @ [CHR 0x0A] @ ''A'' @ [CHR 0x0A] @ ''  B''"]
  show ?thesis by blast
qed

lemma twice_a_parsed:
  "parseGitGraph (''gitGraph'' @ [CHR 0x0A] @ ''commit id: '' @ [CHR 0x22] @ ''a'' @ [CHR 0x22]
       @ [CHR 0x0A] @ ''commit id: '' @ [CHR 0x22] @ ''a'' @ [CHR 0x22])
   = Inr \<lparr>gg_commits =
            [\<lparr>gc_id = ''a'', gc_tag = None, gc_type = ''NORMAL'', gc_branch = ''main'',
              gc_mergeFrom = None\<rparr>,
             \<lparr>gc_id = ''a'', gc_tag = None, gc_type = ''NORMAL'', gc_branch = ''main'',
              gc_mergeFrom = None\<rparr>],
          gg_branches = [\<lparr>gb_name = ''main'', gb_commits = [''a'', ''a''], gb_parentBranch = None\<rparr>]\<rparr>"
  by code_simp

text \<open>
  Claim C7 itself fails: the ids of the commits of a commit graph are taken from the
  text when it gives them, and an id given twice is the id of two vertex cells.
\<close>

theorem commit_id_twice:
  "parseGitGraph (''gitGraph'' @ [CHR 0x0A] @ ''commit id: '' @ [CHR 0x22] @ ''a'' @ [CHR 0x22]
       @ [CHR 0x0A] @ ''commit id: '' @ [CHR 0x22] @ ''a'' @ [CHR 0x22])
   = Inr \<lparr>gg_commits =
            [\<lparr>gc_id = ''a'', gc_tag = None, gc_type = ''NORMAL'', gc_branch = ''main'',
              gc_mergeFrom = None\<rparr>,
             \<lparr>gc_id = ''a'', gc_tag = None, gc_type = ''NORMAL'', gc_branch = ''main'',
              gc_mergeFrom = None\<rparr>],
          gg_branches = [\<lparr>gb_name = ''main'', gb_commits = [''a'', ''a''], gb_parentBranch = None\<rparr>]\<rparr>
   \<and> vertex_ids (generateGitGraphXML
         \<lparr>gg_commits =
            [\<lparr>gc_id = ''a'', gc_tag = None, gc_type = ''NORMAL'', gc_branch = ''main'',
              gc_mergeFrom = None\<rparr>,
             \<lparr>gc_id = ''a'', gc_tag = None, gc_type = ''NORMAL'', gc_branch = ''main'',
              gc_mergeFrom = None\<rparr>],
          gg_branches = [\<lparr>gb_name = ''main'', gb_commits = [''a'', ''a''], gb_parentBranch = None\<rparr>]\<rparr>)
     = [''branch_main'', ''a'', ''a'']"
proof -
  have "vertex_ids (generateGitGraphXML
         \<lparr>gg_commits =
            [\<lparr>gc_id = ''a'', gc_tag = None, gc_type = ''NORMAL'', gc_branch = ''main'',
              gc_mergeFrom = None\<rparr>,
             \<lparr>gc_id = ''a'', gc_tag = None, gc_type = ''NORMAL'', gc_branch = ''main'',
              gc_mergeFrom = None\<rparr>],
          gg_branches = [\<lparr>gb_name = ''main'', gb_commits = [''a'', ''a''], gb_parentBranch = None\<rparr>]\<rparr>)
     = [''branch_main'', ''a'', ''a'']"
    by code_simp
  with twice_a_parsed show ?thesis by blast
qed

text \<open>
  The ids of the cells of the attributes are built from the name of the entity, in the
  name space of the entities: the first attribute of A and an entity named
  \<^verbatim>\<open>A_attr0\<close> have the same id.
\<close>

lemma entity_attribute_same_id:
  "parseERDiagram (''erDiagram'' @ [CHR 0x0A] @ ''A {'' @ [CHR 0x0A] @ ''string x'' @ [CHR 0x0A]
       @ ''}'' @ [CHR 0x0A] @ ''A_attr0 {'' @ [CHR 0x0A] @ ''}'')
   = Inr \<lparr>er_entities =
            [\<lparr>en_name = ''A'',
              en_attributes = [\<lparr>at_type = ''string'', at_name = ''x'', at_constraint = None\<rparr>]\<rparr>,
             \<lparr>en_name = ''A_attr0'', en_attributes = []\<rparr>],
          er_relationships = []\<rparr>
   \<and> vertex_ids (generateERDiagramXML
         \<lparr>er_entities =
            [\<lparr>en_name = ''A'',
              en_attributes = [\<lparr>at_type = ''string'', at_name = ''x'', at_constraint = None\<rparr>]\<rparr>,
             \<lparr>en_name = ''A_attr0'', en_attributes = []\<rparr>],
          er_relationships = []\<rparr>)
     = [''A'', ''A_attr0'', ''A_attr0'']"
  by code_simp

end
